theory Spec2Isabelle
  imports Main "HOL-Library.Word"
begin

section \<open>JavaScript values used by the extension\<close>

text \<open>
  Strings are lists of 8-bit characters; a thrown value is an error object with a name and
  a message. A fallible call returns \<open>js_error + 'a\<close>, \<open>Inl\<close> being the thrown error
  or the rejected promise.

  A number is an IEEE double. The numbers this program computes come from \<open>parseInt\<close>,
  from counts and from products of those, so each is \<open>NaN\<close>, an infinity, or a double
  whose value is an integer: \<open>Num i\<close> is the double of value \<open>i\<close>. (Negative zero is kept
  as \<open>Num 0\<close>: the program only multiplies and compares its numbers and hands them to
  timers, which does not tell the two zeros apart.) Counters that the program itself steps
  by one (loop indices, lengths) are natural numbers.
\<close>

type_synonym bytes = "8 word list"

datatype js_error = JsError (err_name: string) (err_message: string)

datatype jsnum = NaN | Num int | Infinity | MinusInfinity

datatype jsval = Undefined | ArrayBuffer bytes

text \<open>
  Rounding an integer to the nearest double, ties to even. \<open>exponent n\<close> is the number
  of low bits that do not fit into the 53 bits of the significand; the remaining bits are
  rounded up when the bits cut off are more than half a unit, or exactly half with an odd
  significand. A magnitude that rounds to \<open>2^1024\<close> or more is an infinity.
\<close>

function exponent :: "nat \<Rightarrow> nat" where
  "exponent n = (if n < 2 ^ 53 then 0 else Suc (exponent (n div 2)))"
  by pat_completeness auto
termination
  by (relation "measure id") auto

declare exponent.simps [simp del]

definition round_nat :: "nat \<Rightarrow> nat" where
  "round_nat n =
     (let e = exponent n; q = n div 2 ^ e; r = n mod 2 ^ e
      in (if 2 * r > 2 ^ e \<or> (2 * r = 2 ^ e \<and> odd q) then q + 1 else q) * 2 ^ e)"

definition to_double :: "int \<Rightarrow> jsnum" where
  "to_double i =
     (let k = round_nat (nat \<bar>i\<bar>)
      in if k \<ge> 2 ^ 1024 then (if i < 0 then MinusInfinity else Infinity)
         else Num (if i < 0 then - int k else int k))"

text \<open>The product of two numbers: the exact product, rounded.\<close>

definition infinity_times :: "bool \<Rightarrow> int \<Rightarrow> jsnum" where
  "infinity_times positive a =
     (if a = 0 then NaN else if (a > 0) = positive then Infinity else MinusInfinity)"

fun jsmul :: "jsnum \<Rightarrow> jsnum \<Rightarrow> jsnum" where
  "jsmul (Num a) (Num b) = to_double (a * b)"
| "jsmul Infinity (Num b) = infinity_times True b"
| "jsmul MinusInfinity (Num b) = infinity_times False b"
| "jsmul (Num a) Infinity = infinity_times True a"
| "jsmul (Num a) MinusInfinity = infinity_times False a"
| "jsmul Infinity Infinity = Infinity"
| "jsmul Infinity MinusInfinity = MinusInfinity"
| "jsmul MinusInfinity Infinity = MinusInfinity"
| "jsmul MinusInfinity MinusInfinity = Infinity"
| "jsmul _ _ = NaN"

text \<open>The comparisons \<open><\<close> and \<open><=\<close>; with \<open>NaN\<close> they are false.\<close>

fun jsless :: "jsnum \<Rightarrow> jsnum \<Rightarrow> bool" where
  "jsless (Num a) (Num b) \<longleftrightarrow> a < b"
| "jsless NaN _ \<longleftrightarrow> False"
| "jsless _ NaN \<longleftrightarrow> False"
| "jsless MinusInfinity MinusInfinity \<longleftrightarrow> False"
| "jsless MinusInfinity _ \<longleftrightarrow> True"
| "jsless Infinity _ \<longleftrightarrow> False"
| "jsless _ Infinity \<longleftrightarrow> True"
| "jsless _ MinusInfinity \<longleftrightarrow> False"

fun jsle :: "jsnum \<Rightarrow> jsnum \<Rightarrow> bool" where
  "jsle NaN _ \<longleftrightarrow> False"
| "jsle _ NaN \<longleftrightarrow> False"
| "jsle a b \<longleftrightarrow> a = b \<or> jsless a b"

text \<open>
  The class \<open>\s\<close> of regular expressions among the 8-bit characters (tab, line feed,
  vertical tab, form feed, carriage return, space, no-break space); \<open>parseInt\<close> and
  \<open>trim\<close> skip the same characters.
\<close>

definition is_space :: "char \<Rightarrow> bool" where
  "is_space c \<longleftrightarrow> of_char c \<in> {9, 10, 11, 12, 13, 32, 160 :: nat}"

text \<open>The class \<open>\d\<close>.\<close>

definition is_digit :: "char \<Rightarrow> bool" where
  "is_digit c \<longleftrightarrow> 48 \<le> (of_char c :: nat) \<and> (of_char c :: nat) \<le> 57"

text \<open>The word characters \<open>[A-Za-z0-9_]\<close>, which decide \<open>\b\<close>.\<close>

definition is_word_char :: "char \<Rightarrow> bool" where
  "is_word_char c \<longleftrightarrow>
     (let n = (of_char c :: nat)
      in (48 \<le> n \<and> n \<le> 57) \<or> (65 \<le> n \<and> n \<le> 90) \<or> (97 \<le> n \<and> n \<le> 122) \<or> n = 95)"

definition digit_val :: "char \<Rightarrow> nat" where
  "digit_val c = of_char c - 48"

definition hex_val :: "char \<Rightarrow> nat option" where
  "hex_val c =
     (let n = (of_char c :: nat)
      in if 48 \<le> n \<and> n \<le> 57 then Some (n - 48)
         else if 65 \<le> n \<and> n \<le> 70 then Some (n - 55)
         else if 97 \<le> n \<and> n \<le> 102 then Some (n - 87)
         else None)"

definition nat_of_digits :: "string \<Rightarrow> nat" where
  "nat_of_digits ds = foldl (\<lambda>a c. 10 * a + digit_val c) 0 ds"

definition nat_of_hex :: "string \<Rightarrow> nat" where
  "nat_of_hex ds = foldl (\<lambda>a c. 16 * a + (case hex_val c of None \<Rightarrow> 0 | Some v \<Rightarrow> v)) 0 ds"

text \<open>
  \<open>parseInt(s)\<close> with no radix: leading white space is skipped, a sign is read, a
  \<open>0x\<close> prefix selects base 16, and the longest run of digits is the value, rounded to
  the nearest double (as the browser's engine does, also for more than 20 digits); no
  digit gives \<open>NaN\<close>.
\<close>

definition parseInt_unsigned :: "string \<Rightarrow> int option" where
  "parseInt_unsigned s =
     (case s of
        c0 # cx # r \<Rightarrow>
          if c0 = CHR ''0'' \<and> (cx = CHR ''x'' \<or> cx = CHR ''X'')
          then (let ds = takeWhile (\<lambda>c. hex_val c \<noteq> None) r
                in if ds = [] then None else Some (int (nat_of_hex ds)))
          else (let ds = takeWhile is_digit s
                in if ds = [] then None else Some (int (nat_of_digits ds)))
      | _ \<Rightarrow>
          (let ds = takeWhile is_digit s
           in if ds = [] then None else Some (int (nat_of_digits ds))))"

definition parseInt :: "string \<Rightarrow> jsnum" where
  "parseInt s =
     (let t = dropWhile is_space s;
          neg = (t \<noteq> [] \<and> hd t = CHR ''-'');
          u = (if t \<noteq> [] \<and> (hd t = CHR ''-'' \<or> hd t = CHR ''+'') then tl t else t)
      in case parseInt_unsigned u of
           None \<Rightarrow> NaN
         | Some n \<Rightarrow> to_double (if neg then - n else n))"

text \<open>The decimal numeral of a number, as a template literal prints it.\<close>

function show_nat :: "nat \<Rightarrow> string" where
  "show_nat n =
     (if n < 10 then [char_of (48 + n)]
      else show_nat (n div 10) @ [char_of (48 + n mod 10)])"
  by pat_completeness auto
termination
  by (relation "measure id") auto

declare show_nat.simps [simp del]

section \<open>The service worker: state and effects\<close>

text \<open>
  \<open>service_worker.js\<close> has one global, \<open>activeCapture\<close>. Everything else the worker
  does is an effect on its surroundings: a message to the popup, a timer, a network
  fetch, a message to the content script, a screenshot, a download. The model records
  the effects in order in \<open>effects\<close> and counts the calls whose outcome the surroundings
  decide, so that the k-th call reads the k-th outcome of the environment.
\<close>

datatype popup_msg =
    PROGRESS_UPDATE nat nat
  | CAPTURE_COMPLETE
  | CAPTURE_ERROR string

datatype content_msg =
    GET_DOCUMENT_TITLE
  | FETCH_SLIDE_URLS nat
  | GO_TO_SLIDE nat
  | GO_TO_NEXT_SLIDE

datatype effect =
    ToPopup popup_msg
  | Delay jsnum
  | Fetch string
  | ToContent content_msg
  | CaptureVisibleTab
  | Download string bytes

record capture =
  tabId :: nat
  totalSlides :: nat

record worker =
  activeCapture :: "capture option"
  fetches :: nat
  navigations :: nat
  screenshots :: nat
  effects :: "effect list"

record response =
  status :: nat
  retry_after :: "string option"
  body :: "js_error + bytes"

record image =
  img_width :: nat
  img_height :: nat
  img_source :: jsval

record drawing =
  drawn :: image
  at_x :: nat
  at_y :: nat
  draw_width :: nat
  draw_height :: nat

record page =
  page_width :: nat
  page_height :: nat
  content :: "drawing list"

text \<open>
  The vendored PDF library (\<open>lib/pdf-lib.min.js\<close>) is a parameter: how it decodes an
  image and how it serialises a document are its business. A document under
  construction is the list of its pages.
\<close>

record pdflib =
  embedPng :: "jsval \<Rightarrow> js_error + image"
  embedJpg :: "jsval \<Rightarrow> js_error + image"
  save :: "page list \<Rightarrow> js_error + bytes"

text \<open>The surroundings of one capture run.\<close>

record env =
  title_reply :: "js_error + string"
  urls_reply :: "js_error + string list option"
  nav_reply :: "nat \<Rightarrow> js_error + unit"
  net :: "nat \<Rightarrow> js_error + response"
  shot :: "nat \<Rightarrow> js_error + string"
  atob :: "string \<Rightarrow> js_error + string"
  download_reply :: "js_error + unit"
  lib :: pdflib

definition emit :: "effect \<Rightarrow> worker \<Rightarrow> worker" where
  "emit e w = w\<lparr>effects := effects w @ [e]\<rparr>"

text \<open>\<open>delay(ms)\<close>: a timer of \<open>ms\<close> milliseconds.\<close>

definition delay :: "jsnum \<Rightarrow> worker \<Rightarrow> worker" where
  "delay ms w = emit (Delay ms) w"

text \<open>\<open>fetch(url, {credentials: 'include'})\<close>: the next outcome of the network.\<close>

definition do_fetch :: "env \<Rightarrow> string \<Rightarrow> worker \<Rightarrow> (js_error + response) \<times> worker" where
  "do_fetch E url w = (net E (fetches w), emit (Fetch url) (w\<lparr>fetches := Suc (fetches w)\<rparr>))"

definition response_ok :: "response \<Rightarrow> bool" where
  "response_ok r \<longleftrightarrow> 200 \<le> status r \<and> status r \<le> 299"

text \<open>\<open>response.headers.get('Retry-After') || '2'\<close>: a missing or empty header gives \<open>'2'\<close>.\<close>

definition retry_after_text :: "response \<Rightarrow> string" where
  "retry_after_text r = (case retry_after r of None \<Rightarrow> ''2'' | Some h \<Rightarrow> if h = [] then ''2'' else h)"

text \<open>\<open>parseInt(response.headers.get('Retry-After') || '2')\<close>\<close>

definition retry_hint :: "response \<Rightarrow> jsnum" where
  "retry_hint r = parseInt (retry_after_text r)"

section \<open>fetchImageWithRetry\<close>

text \<open>
  The loop \<open>for (attempt = 1; attempt <= maxRetries; attempt++)\<close>, for a natural number
  \<open>maxRetries\<close> below \<open>2^53\<close>, where counting by one is exact (the only caller passes
  none, which gives 3). A 429 response sleeps
  and continues; any error thrown inside \<open>try\<close> (a rejected fetch, a status that is not
  ok, a body that cannot be read) is rethrown on the last attempt and otherwise followed
  by a sleep of \<open>1000 * attempt\<close>. When the loop ends without returning or throwing, the
  function returns \<open>undefined\<close>.
\<close>

function fetch_loop ::
  "env \<Rightarrow> string \<Rightarrow> nat \<Rightarrow> nat \<Rightarrow> worker \<Rightarrow> (js_error + jsval) \<times> worker" where
  "fetch_loop E url maxRetries attempt w =
     (if attempt \<le> maxRetries then
        (case do_fetch E url w of
           (Inl err, w1) \<Rightarrow>
             (if attempt = maxRetries then (Inl err, w1)
              else fetch_loop E url maxRetries (Suc attempt) (delay (jsmul (Num 1000) (Num (int attempt))) w1))
         | (Inr resp, w1) \<Rightarrow>
             if status resp = 429 then
               fetch_loop E url maxRetries (Suc attempt)
                 (delay (jsmul (jsmul (retry_hint resp) (Num 1000)) (Num (int attempt))) w1)
             else if \<not> response_ok resp then
               (if attempt = maxRetries then (Inl (JsError ''Error'' (''HTTP '' @ show_nat (status resp))), w1)
                else fetch_loop E url maxRetries (Suc attempt) (delay (jsmul (Num 1000) (Num (int attempt))) w1))
             else
               (case body resp of
                  Inl err \<Rightarrow>
                    (if attempt = maxRetries then (Inl err, w1)
                     else fetch_loop E url maxRetries (Suc attempt) (delay (jsmul (Num 1000) (Num (int attempt))) w1))
                | Inr b \<Rightarrow> (Inr (ArrayBuffer b), w1)))
      else (Inr Undefined, w))"
  by pat_completeness auto
termination
  by (relation "measure (\<lambda>(E, url, maxRetries, attempt, w). Suc maxRetries - attempt)") auto

definition fetchImageWithRetry ::
  "env \<Rightarrow> string \<Rightarrow> nat \<Rightarrow> worker \<Rightarrow> (js_error + jsval) \<times> worker" where
  "fetchImageWithRetry E url maxRetries w = fetch_loop E url maxRetries 1 w"

declare fetch_loop.simps [simp del]

section \<open>Messages to the popup and to the content script\<close>

definition sendProgressUpdate :: "nat \<Rightarrow> nat \<Rightarrow> worker \<Rightarrow> worker" where
  "sendProgressUpdate current tot w = emit (ToPopup (PROGRESS_UPDATE current tot)) w"

definition sendComplete :: "worker \<Rightarrow> worker" where
  "sendComplete w = emit (ToPopup CAPTURE_COMPLETE) w"

text \<open>\<open>error.message || String(error)\<close>: an error with an empty message prints as its name.\<close>

definition error_text :: "js_error \<Rightarrow> string" where
  "error_text e = (if err_message e = [] then err_name e else err_message e)"

definition sendError :: "js_error \<Rightarrow> worker \<Rightarrow> worker" where
  "sendError e w = emit (ToPopup (CAPTURE_ERROR (error_text e))) w"

text \<open>
  \<open>sendToContentScript\<close> for the two navigation messages: the promise rejects when
  \<open>chrome.runtime.lastError\<close> is set.
\<close>

definition sendNavigation :: "env \<Rightarrow> content_msg \<Rightarrow> worker \<Rightarrow> (js_error + unit) \<times> worker" where
  "sendNavigation E m w =
     (nav_reply E (navigations w), emit (ToContent m) (w\<lparr>navigations := Suc (navigations w)\<rparr>))"

definition captureScreenshot :: "env \<Rightarrow> worker \<Rightarrow> (js_error + string) \<times> worker" where
  "captureScreenshot E w =
     (shot E (screenshots w), emit CaptureVisibleTab (w\<lparr>screenshots := Suc (screenshots w)\<rparr>))"

fun split_on :: "char \<Rightarrow> string \<Rightarrow> string list" where
  "split_on c [] = [[]]"
| "split_on c (x # xs) =
     (if x = c then [] # split_on c xs
      else (case split_on c xs of [] \<Rightarrow> [[x]] | y # ys \<Rightarrow> (x # y) # ys))"

text \<open>
  \<open>dataUrlToArrayBuffer\<close>: the text after the first comma is decoded by \<open>atob\<close>
  (a data URL with no comma passes \<open>undefined\<close>, which \<open>atob\<close> reads as the text
  \<open>undefined\<close>), and every character code becomes a byte.
\<close>

definition dataUrlToArrayBuffer :: "env \<Rightarrow> string \<Rightarrow> js_error + jsval" where
  "dataUrlToArrayBuffer E dataUrl =
     (let parts = split_on CHR '','' dataUrl;
          base64 = (if 1 < length parts then parts ! 1 else ''undefined'')
      in case atob E base64 of
           Inl e \<Rightarrow> Inl e
         | Inr binaryString \<Rightarrow> Inr (ArrayBuffer (map (\<lambda>c. word_of_nat (of_char c)) binaryString)))"

section \<open>The two ways of getting the slide images\<close>

text \<open>
  \<open>fetchSlideUrlsViaApi\<close>: the content script's list is used only when it has exactly
  \<open>totalSlides\<close> entries; a rejected message, a missing list or a list of another
  length give \<open>null\<close>.
\<close>

definition fetchSlideUrlsViaApi :: "env \<Rightarrow> nat \<Rightarrow> nat \<Rightarrow> worker \<Rightarrow> string list option \<times> worker" where
  "fetchSlideUrlsViaApi E tab tot w =
     (let w1 = emit (ToContent (FETCH_SLIDE_URLS tot)) w
      in case urls_reply E of
           Inl e \<Rightarrow> (None, w1)
         | Inr None \<Rightarrow> (None, w1)
         | Inr (Some urls) \<Rightarrow> (if length urls = tot then (Some urls, w1) else (None, w1)))"

function shot_loop ::
  "env \<Rightarrow> nat \<Rightarrow> nat \<Rightarrow> jsval list \<Rightarrow> worker \<Rightarrow> (js_error + jsval list) \<times> worker" where
  "shot_loop E tot i acc w =
     (if i \<le> tot then
        (case captureScreenshot E (sendProgressUpdate i tot w) of
           (Inl e, w1) \<Rightarrow> (Inl e, w1)
         | (Inr dataUrl, w1) \<Rightarrow>
             (case dataUrlToArrayBuffer E dataUrl of
                Inl e \<Rightarrow> (Inl e, w1)
              | Inr buf \<Rightarrow>
                  if i < tot then
                    (case sendNavigation E GO_TO_NEXT_SLIDE w1 of
                       (Inl e, w2) \<Rightarrow> (Inl e, w2)
                     | (Inr u, w2) \<Rightarrow>
                         shot_loop E tot (Suc i) (acc @ [buf]) (delay (Num 500) (delay (Num 800) w2)))
                  else shot_loop E tot (Suc i) (acc @ [buf]) w1))
      else (Inr acc, w))"
  by pat_completeness auto
termination
  by (relation "measure (\<lambda>(E, tot, i, acc, w). Suc tot - i)") auto

declare shot_loop.simps [simp del]

definition captureViaScreenshots ::
  "env \<Rightarrow> nat \<Rightarrow> nat \<Rightarrow> worker \<Rightarrow> (js_error + jsval list) \<times> worker" where
  "captureViaScreenshots E tab tot w =
     (case sendNavigation E (GO_TO_SLIDE 1) w of
        (Inl e, w1) \<Rightarrow> (Inl e, w1)
      | (Inr u, w1) \<Rightarrow> shot_loop E tot 1 [] (delay (Num 800) w1))"

text \<open>
  \<open>fetchImagesFromUrls\<close>: one \<open>fetchImageWithRetry\<close> per URL, in order, with the
  default \<open>maxRetries = 3\<close>; the first error thrown ends the loop.
\<close>

fun fetch_images ::
  "env \<Rightarrow> nat \<Rightarrow> nat \<Rightarrow> string list \<Rightarrow> jsval list \<Rightarrow> worker \<Rightarrow> (js_error + jsval list) \<times> worker" where
  "fetch_images E n i [] images w = (Inr images, w)"
| "fetch_images E n i (url # rest) images w =
     (case fetchImageWithRetry E url 3 (sendProgressUpdate (i + 1) n w) of
        (Inl e, w1) \<Rightarrow> (Inl e, w1)
      | (Inr imageData, w1) \<Rightarrow> fetch_images E n (Suc i) rest (images @ [imageData]) w1)"

definition fetchImagesFromUrls ::
  "env \<Rightarrow> string list \<Rightarrow> worker \<Rightarrow> (js_error + jsval list) \<times> worker" where
  "fetchImagesFromUrls E urls w = fetch_images E (length urls) 0 urls [] w"

section \<open>generatePdf\<close>

text \<open>\<open>new Uint8Array(imageData)\<close>; of \<open>undefined\<close> it is the empty array.\<close>

definition Uint8Array :: "jsval \<Rightarrow> bytes" where
  "Uint8Array v = (case v of Undefined \<Rightarrow> [] | ArrayBuffer b \<Rightarrow> b)"

text \<open>\<open>bytes[i]\<close>; out of range it is \<open>undefined\<close>, which equals no byte.\<close>

definition byte_at :: "bytes \<Rightarrow> nat \<Rightarrow> 8 word option" where
  "byte_at b i = (if i < length b then Some (b ! i) else None)"

definition has_png_signature :: "bytes \<Rightarrow> bool" where
  "has_png_signature b \<longleftrightarrow>
     byte_at b 0 = Some 0x89 \<and> byte_at b 1 = Some 0x50 \<and> byte_at b 2 = Some 0x4E \<and> byte_at b 3 = Some 0x47"

definition embed :: "pdflib \<Rightarrow> jsval \<Rightarrow> js_error + image" where
  "embed L imageData =
     (if has_png_signature (Uint8Array imageData) then embedPng L imageData else embedJpg L imageData)"

text \<open>
  \<open>pdfDoc.addPage([image.width, image.height])\<close> followed by
  \<open>page.drawImage(image, {x: 0, y: 0, width: image.width, height: image.height})\<close>.
\<close>

definition page_for :: "image \<Rightarrow> page" where
  "page_for im =
     \<lparr>page_width = img_width im, page_height = img_height im,
      content = [\<lparr>drawn = im, at_x = 0, at_y = 0, draw_width = img_width im, draw_height = img_height im\<rparr>]\<rparr>"

fun add_pages :: "pdflib \<Rightarrow> jsval list \<Rightarrow> page list \<Rightarrow> js_error + page list" where
  "add_pages L [] pdfDoc = Inr pdfDoc"
| "add_pages L (imageData # rest) pdfDoc =
     (case embed L imageData of
        Inl e \<Rightarrow> Inl e
      | Inr im \<Rightarrow> add_pages L rest (pdfDoc @ [page_for im]))"

definition generatePdf :: "pdflib \<Rightarrow> jsval list \<Rightarrow> js_error + bytes" where
  "generatePdf L imageDataArray =
     (case add_pages L imageDataArray [] of
        Inl e \<Rightarrow> Inl e
      | Inr pdfDoc \<Rightarrow> save L pdfDoc)"

section \<open>downloadPdf and the file name\<close>

text \<open>The characters of the class \<open>[<>:"/\\|?*]\<close>.\<close>

definition illegal_char :: "char \<Rightarrow> bool" where
  "illegal_char c \<longleftrightarrow>
     c \<in> {CHR ''<'', CHR ''>'', CHR '':'', CHR 0x22, CHR ''/'', CHR 0x5C, CHR ''|'', CHR ''?'', CHR ''*''}"

text \<open>\<open>.replace(/[<>:"/\\|?*]/g, '')\<close>\<close>

definition strip_illegal :: "string \<Rightarrow> string" where
  "strip_illegal s = filter (\<lambda>c. \<not> illegal_char c) s"

text \<open>
  \<open>.replace(/\s+/g, '-')\<close>: scanning from the left, each match is the longest run of
  white space at that place, and is replaced by one hyphen.
\<close>

function hyphenate :: "string \<Rightarrow> string" where
  "hyphenate [] = []"
| "hyphenate (c # cs) =
     (if is_space c then CHR ''-'' # hyphenate (dropWhile is_space cs) else c # hyphenate cs)"
  by pat_completeness auto
termination
  by (relation "measure length") (auto simp: length_dropWhile_le less_Suc_eq_le)

definition safeName :: "string \<Rightarrow> string" where
  "safeName filename =
     (let s = take 100 (hyphenate (strip_illegal filename))
      in if s = [] then ''docsend-presentation'' else s)"

text \<open>
  \<open>downloadPdf\<close>: \<open>chrome.downloads.download\<close> is asked to save the bytes under
  \<open>safeName.pdf\<close>; its promise may reject. The blob URL that carries the bytes, and the
  timer that revokes it a minute later, are left out.
\<close>

definition downloadPdf :: "env \<Rightarrow> bytes \<Rightarrow> string \<Rightarrow> worker \<Rightarrow> (js_error + unit) \<times> worker" where
  "downloadPdf E pdfBytes filename w =
     (download_reply E, emit (Download (safeName filename @ ''.pdf'') pdfBytes) w)"

section \<open>startCapture\<close>

text \<open>The body of the \<open>try\<close> block.\<close>

definition capture_run :: "env \<Rightarrow> nat \<Rightarrow> nat \<Rightarrow> worker \<Rightarrow> (js_error + unit) \<times> worker" where
  "capture_run E tab tot w =
     (let w1 = emit (ToContent GET_DOCUMENT_TITLE) w
      in case title_reply E of
           Inl e \<Rightarrow> (Inl e, w1)
         | Inr title \<Rightarrow>
             (let documentTitle = (if title = [] then ''docsend-presentation'' else title)
              in case fetchSlideUrlsViaApi E tab tot w1 of
                   (urls, w2) \<Rightarrow>
                     (case (case urls of
                              Some us \<Rightarrow> fetchImagesFromUrls E us w2
                            | None \<Rightarrow> captureViaScreenshots E tab tot w2) of
                        (Inl e, w3) \<Rightarrow> (Inl e, w3)
                      | (Inr imageDataArray, w3) \<Rightarrow>
                          (let w4 = sendProgressUpdate tot tot w3
                           in case generatePdf (lib E) imageDataArray of
                                Inl e \<Rightarrow> (Inl e, w4)
                              | Inr pdfBytes \<Rightarrow>
                                  (case downloadPdf E pdfBytes documentTitle w4 of
                                     (Inl e, w5) \<Rightarrow> (Inl e, w5)
                                   | (Inr u, w5) \<Rightarrow> (Inr (), sendComplete w5))))))"

text \<open>
  \<open>startCapture\<close>: the guard on \<open>activeCapture\<close> returns before the \<open>try\<close>, so its
  \<open>finally\<close> does not run for a rejected request. Between its entry and its first
  \<open>await\<close> the function runs without interruption, so the test and the assignment of
  \<open>activeCapture\<close> are one step.
\<close>

definition startCapture :: "env \<Rightarrow> nat \<Rightarrow> nat \<Rightarrow> worker \<Rightarrow> worker" where
  "startCapture E tab tot w =
     (if activeCapture w \<noteq> None
      then sendError (JsError ''Error'' ''A capture is already in progress'') w
      else (case capture_run E tab tot (w\<lparr>activeCapture := Some \<lparr>tabId = tab, totalSlides = tot\<rparr>\<rparr>) of
              (Inl e, w1) \<Rightarrow> (sendError e w1)\<lparr>activeCapture := None\<rparr>
            | (Inr u, w1) \<Rightarrow> w1\<lparr>activeCapture := None\<rparr>))"

section \<open>The content script: the page as the script sees it\<close>

text \<open>
  An element is what the script can read of it: its text, two computed style properties
  and its bounding box (of which the script reads the height only). A page answers \<open>querySelectorAll\<close> for every selector
  (in document order) and has the text of its body and its title; \<open>querySelector\<close> is
  the first element of \<open>querySelectorAll\<close>, or \<open>null\<close>.
\<close>

record element =
  textContent :: string
  display :: string
  visibility :: string
  rect_width :: int
  rect_height :: int

record document =
  querySelectorAll :: "string \<Rightarrow> element list"
  body_innerText :: string
  doc_title :: string

definition querySelector :: "document \<Rightarrow> string \<Rightarrow> element option" where
  "querySelector d sel = (case querySelectorAll d sel of [] \<Rightarrow> None | el # rest \<Rightarrow> Some el)"

record slide_info =
  current :: jsnum
  total_slides :: jsnum

subsection \<open>The regular expressions\<close>

definition ascii_upper :: "char \<Rightarrow> char" where
  "ascii_upper c =
     (let n = (of_char c :: nat) in if 97 \<le> n \<and> n \<le> 122 then char_of (n - 32) else c)"

text \<open>A literal read without regard to case (flag \<open>i\<close>), at the head of the text.\<close>

definition strip_prefix_ci :: "string \<Rightarrow> string \<Rightarrow> string option" where
  "strip_prefix_ci p s =
     (if length p \<le> length s \<and> map ascii_upper (take (length p) s) = map ascii_upper p
      then Some (drop (length p) s) else None)"

definition strip_prefix :: "string \<Rightarrow> string \<Rightarrow> string option" where
  "strip_prefix p s = (if take (length p) s = p then Some (drop (length p) s) else None)"

text \<open>\<open>(?:\/|of)\<close> under flag \<open>i\<close>, at the head of the text; the rest is returned.\<close>

definition separator :: "string \<Rightarrow> string option" where
  "separator s =
     (case strip_prefix ''/'' s of
        Some r \<Rightarrow> Some r
      | None \<Rightarrow> strip_prefix_ci ''of'' s)"

text \<open>
  \<open>(\d+)\s*(?:\/|of)\s*(\d+)\<close> at the head of the text: the two groups and the text
  after the match. Every quantifier takes its longest run: a shorter run of digits is
  followed by a digit and a shorter run of white space by white space, and neither can
  start what follows in the pattern, so backtracking finds no other match here. The
  third alternative \<open>\/\s*\<close> of the page-label pattern matches nothing that \<open>\/\<close>
  followed by \<open>\s*\<close> does not.
\<close>

definition pair_here :: "string \<Rightarrow> (string \<times> string \<times> string) option" where
  "pair_here s =
     (let d1 = takeWhile is_digit s
      in if d1 = [] then None
         else (case separator (dropWhile is_space (dropWhile is_digit s)) of
                 None \<Rightarrow> None
               | Some r \<Rightarrow>
                   (let t = dropWhile is_space r; d2 = takeWhile is_digit t
                    in if d2 = [] then None else Some (d1, d2, dropWhile is_digit t))))"

text \<open>\<open>text.match(/(\d+)\s*(?:\/|of|\/\s*)\s*(\d+)/i)\<close>: the leftmost match.\<close>

fun label_match :: "string \<Rightarrow> (string \<times> string) option" where
  "label_match [] = None"
| "label_match (c # cs) =
     (case pair_here (c # cs) of
        Some (d1, d2, r) \<Rightarrow> Some (d1, d2)
      | None \<Rightarrow> label_match cs)"

text \<open>
  \<open>bodyText.match(/\b(\d+)\s*(?:\/|of)\s*(\d+)\b/i)\<close>: the leftmost match that starts
  after a character that is not a word character (or at the start) and ends before one
  (or at the end). The first argument is the character before the text.
\<close>

definition not_word :: "char option \<Rightarrow> bool" where
  "not_word c = (case c of None \<Rightarrow> True | Some x \<Rightarrow> \<not> is_word_char x)"

definition head_of :: "string \<Rightarrow> char option" where
  "head_of s = (case s of [] \<Rightarrow> None | x # xs \<Rightarrow> Some x)"

fun body_match :: "char option \<Rightarrow> string \<Rightarrow> (string \<times> string) option" where
  "body_match prev [] = None"
| "body_match prev (c # cs) =
     (case (if not_word prev then pair_here (c # cs) else None) of
        Some (d1, d2, r) \<Rightarrow> if not_word (head_of r) then Some (d1, d2) else body_match (Some c) cs
      | None \<Rightarrow> body_match (Some c) cs)"

text \<open>
  \<open>/"(?:pageCount|page_count|totalPages|total_pages|numPages)":\s*(\d+)/\<close>: the
  digits of the leftmost match.
\<close>

definition count_keys :: "string list" where
  \<open>count_keys = [''"pageCount":'', ''"page_count":'', ''"totalPages":'', ''"total_pages":'', ''"numPages":'']\<close>

definition count_here :: "string \<Rightarrow> string option" where
  "count_here s =
     (case List.map_filter (\<lambda>k. strip_prefix k s) count_keys of
        [] \<Rightarrow> None
      | r # rs \<Rightarrow>
          (let d = takeWhile is_digit (dropWhile is_space r) in if d = [] then None else Some d))"

fun count_match :: "string \<Rightarrow> string option" where
  "count_match [] = None"
| "count_match (c # cs) = (case count_here (c # cs) of Some d \<Rightarrow> Some d | None \<Rightarrow> count_match cs)"

subsection \<open>getSlideInfo\<close>

definition pageLabelSelectors :: "string list" where
  \<open>pageLabelSelectors =
     [''.page-label'', ''[class*="page-label"]'', ''[class*="pageLabel"]'', ''[class*="PageLabel"]'',
      ''[class*="page-number"]'', ''[class*="pageNumber"]'', ''[class*="slide-counter"]'',
      ''[class*="pagination"]'', ''[data-testid*="page"]'']\<close>

definition thumbnailSelectors :: "string list" where
  \<open>thumbnailSelectors =
     [''[class*="thumbnail"]'', ''[class*="page-thumb"]'', ''[class*="sidebar"] [class*="page"]'',
      ''[data-page]'', ''[data-slide]'', ''[class*="nav-item"]'']\<close>

text \<open>Method 1: the first selector whose first element has a text that matches.\<close>

fun page_label_info :: "document \<Rightarrow> string list \<Rightarrow> slide_info option" where
  "page_label_info d [] = None"
| "page_label_info d (selector # rest) =
     (case querySelector d selector of
        None \<Rightarrow> page_label_info d rest
      | Some el \<Rightarrow>
          (case label_match (textContent el) of
             Some (m1, m2) \<Rightarrow> Some \<lparr>current = parseInt m1, total_slides = parseInt m2\<rparr>
           | None \<Rightarrow> page_label_info d rest))"

definition method1 :: "document \<Rightarrow> slide_info option" where
  "method1 d = page_label_info d pageLabelSelectors"

text \<open>Method 2: the first match in the text of the body, kept only within the bounds.\<close>

definition method2 :: "document \<Rightarrow> slide_info option" where
  "method2 d =
     (case body_match None (body_innerText d) of
        None \<Rightarrow> None
      | Some (m1, m2) \<Rightarrow>
          (let cur = parseInt m1; tot = parseInt m2
           in if jsle (Num 1) tot \<and> jsle tot (Num 500) \<and> jsle (Num 1) cur \<and> jsle cur tot
              then Some \<lparr>current = cur, total_slides = tot\<rparr> else None))"

text \<open>Method 3: the first selector that finds more than one element.\<close>

fun thumbnail_info :: "document \<Rightarrow> string list \<Rightarrow> slide_info option" where
  "thumbnail_info d [] = None"
| "thumbnail_info d (selector # rest) =
     (if length (querySelectorAll d selector) > 1
      then Some \<lparr>current = Num 1, total_slides = Num (int (length (querySelectorAll d selector)))\<rparr>
      else thumbnail_info d rest)"

definition method3 :: "document \<Rightarrow> slide_info option" where
  "method3 d = thumbnail_info d thumbnailSelectors"

text \<open>Method 4: the first inline script with a page count.\<close>

fun script_info :: "element list \<Rightarrow> slide_info option" where
  "script_info [] = None"
| "script_info (script # rest) =
     (case count_match (textContent script) of
        Some m1 \<Rightarrow> Some \<lparr>current = Num 1, total_slides = parseInt m1\<rparr>
      | None \<Rightarrow> script_info rest)"

definition method4 :: "document \<Rightarrow> slide_info option" where
  "method4 d = script_info (querySelectorAll d ''script:not([src])'')"

text \<open>Method 5 of the source only writes to the console; then \<open>null\<close> is returned.\<close>

definition getSlideInfo :: "document \<Rightarrow> slide_info option" where
  "getSlideInfo d =
     (case method1 d of
        Some i \<Rightarrow> Some i
      | None \<Rightarrow>
          (case method2 d of
             Some i \<Rightarrow> Some i
           | None \<Rightarrow>
               (case method3 d of
                  Some i \<Rightarrow> Some i
                | None \<Rightarrow> method4 d)))"

subsection \<open>isAuthRequired\<close>

definition gateSelectors :: "string list" where
  \<open>gateSelectors =
     [''#link-auth-wall'', ''[data-testid="visitor-auth"]'', ''.visitor-gate'', ''.email-gate'',
      ''#visitor-form'']\<close>

definition email_input_visible :: "document \<Rightarrow> bool" where
  \<open>email_input_visible d \<longleftrightarrow>
     (case querySelector d ''input[type="email"]'' of
        None \<Rightarrow> False
      | Some emailInput \<Rightarrow>
          display emailInput \<noteq> ''none'' \<and> visibility emailInput \<noteq> ''hidden''
          \<and> rect_height emailInput > 0)\<close>

definition gate_container_visible :: "document \<Rightarrow> string \<Rightarrow> bool" where
  "gate_container_visible d selector \<longleftrightarrow>
     (case querySelector d selector of
        None \<Rightarrow> False
      | Some el \<Rightarrow> display el \<noteq> ''none'' \<and> visibility el \<noteq> ''hidden'')"

definition isAuthRequired :: "document \<Rightarrow> bool" where
  "isAuthRequired d \<longleftrightarrow> email_input_visible d \<or> list_ex (gate_container_visible d) gateSelectors"

subsection \<open>getDocumentTitle\<close>

definition trim :: "string \<Rightarrow> string" where
  "trim s = rev (dropWhile is_space (rev (dropWhile is_space s)))"

text \<open>
  \<open>\s*[-|]\s*DocSend.*$\<close> under flag \<open>i\<close>, at the head of the text: the dot matches
  no line terminator, so the rest of the text must hold none.
\<close>

definition docsend_suffix_here :: "string \<Rightarrow> bool" where
  "docsend_suffix_here s \<longleftrightarrow>
     (case dropWhile is_space s of
        [] \<Rightarrow> False
      | c # r \<Rightarrow>
          (c = CHR ''-'' \<or> c = CHR ''|'')
          \<and> (case strip_prefix_ci ''DocSend'' (dropWhile is_space r) of
                None \<Rightarrow> False
              | Some t \<Rightarrow> \<forall>x \<in> set t. x \<noteq> CHR 0x0A \<and> x \<noteq> CHR 0x0D))"

text \<open>\<open>.replace(/\s*[-|]\s*DocSend.*$/i, '')\<close>: the leftmost match is cut off.\<close>

fun cut_docsend :: "string \<Rightarrow> string" where
  "cut_docsend [] = []"
| "cut_docsend (c # cs) = (if docsend_suffix_here (c # cs) then [] else c # cut_docsend cs)"

definition getDocumentTitle :: "document \<Rightarrow> string" where
  \<open>getDocumentTitle d =
     (case querySelector d ''[class*="document-title"], [class*="doc-title"], h1, [class*="header"] h2'' of
        Some titleEl \<Rightarrow> trim (textContent titleEl)
      | None \<Rightarrow>
          (let pageTitle = trim (cut_docsend (doc_title d))
           in if pageTitle = [] then ''docsend-presentation'' else pageTitle))\<close>

subsection \<open>The answer to \<open>GET_SLIDE_INFO\<close>\<close>

datatype slide_info_response =
    Slides jsnum jsnum string
  | AuthRequired
  | DetectError string

definition on_GET_SLIDE_INFO :: "document \<Rightarrow> slide_info_response" where
  "on_GET_SLIDE_INFO d =
     (case getSlideInfo d of
        Some slideInfo \<Rightarrow> Slides (current slideInfo) (total_slides slideInfo) (getDocumentTitle d)
      | None \<Rightarrow>
          if isAuthRequired d then AuthRequired
          else DetectError ''Could not detect slides on this page. Try refreshing.'')"

section \<open>Observations on a run\<close>

text \<open>The timers set during a run, in order.\<close>

definition delays :: "worker \<Rightarrow> jsnum list" where
  "delays w = List.map_filter (\<lambda>e. case e of Delay ms \<Rightarrow> Some ms | _ \<Rightarrow> None) (effects w)"


text \<open>
  A stretch of a run touched neither the slot \<open>activeCapture\<close> nor the page: no
  screenshot was taken and no navigation message sent.
\<close>

definition untouched :: "worker \<Rightarrow> worker \<Rightarrow> bool" where
  "untouched w w' \<longleftrightarrow>
     screenshots w' = screenshots w \<and> navigations w' = navigations w
     \<and> activeCapture w' = activeCapture w"

text \<open>No effect recorded in the first state is missing from the second.\<close>

definition kept :: "worker \<Rightarrow> worker \<Rightarrow> bool" where
  "kept w w' \<longleftrightarrow> set (effects w) \<subseteq> set (effects w')"

text \<open>
  A gating control that is visibly rendered in the sense of the specification: judged by
  computed display, computed visibility and a bounding box that is not empty.
\<close>

definition visibly_rendered :: "element \<Rightarrow> bool" where
  "visibly_rendered el \<longleftrightarrow>
     display el \<noteq> ''none'' \<and> visibility el \<noteq> ''hidden'' \<and> rect_width el > 0 \<and> rect_height el > 0"

definition gating_control_rendered :: "document \<Rightarrow> bool" where
  \<open>gating_control_rendered d \<longleftrightarrow>
     list_ex (\<lambda>selector. list_ex visibly_rendered (querySelectorAll d selector))
       (''input[type="email"]'' # gateSelectors)\<close>

text \<open>
  The file name in the words of the specification: strip the illegal characters, turn
  every maximal run of white space into one hyphen, keep at most 100 characters, and take
  the default name when nothing is left. \<open>runs P s\<close> cuts \<open>s\<close> into its maximal runs
  of characters that agree on \<open>P\<close>.
\<close>

fun runs :: "(char \<Rightarrow> bool) \<Rightarrow> string \<Rightarrow> string list" where
  "runs P [] = []"
| "runs P (c # cs) =
     (case runs P cs of
        [] \<Rightarrow> [[c]]
      | r # rs \<Rightarrow> if P c = P (hd r) then (c # r) # rs else [c] # r # rs)"

definition collapse_whitespace :: "string \<Rightarrow> string" where
  "collapse_whitespace s = concat (map (\<lambda>r. if is_space (hd r) then ''-'' else r) (runs is_space s))"

definition spec_filename :: "string \<Rightarrow> string" where
  "spec_filename title =
     (let s = take 100 (collapse_whitespace (filter (\<lambda>c. \<not> illegal_char c) title))
      in if s = [] then ''docsend-presentation'' else s)"

section \<open>Concrete pages, responses and surroundings\<close>

definition idle :: worker where
  "idle = \<lparr>activeCapture = None, fetches = 0, navigations = 0, screenshots = 0, effects = []\<rparr>"

definition too_many_requests :: "string option \<Rightarrow> response" where
  "too_many_requests h = \<lparr>status = 429, retry_after = h, body = Inr []\<rparr>"

definition ok_response :: "bytes \<Rightarrow> response" where
  "ok_response b = \<lparr>status = 200, retry_after = None, body = Inr b\<rparr>"

definition server_error :: response where
  "server_error = \<lparr>status = 500, retry_after = None, body = Inr []\<rparr>"

definition be16_bytes :: "nat \<Rightarrow> bytes" where
  "be16_bytes n = [word_of_nat (n div 256), word_of_nat (n mod 256)]"

definition be32_bytes :: "nat \<Rightarrow> bytes" where
  "be32_bytes n = be16_bytes (n div 65536) @ be16_bytes (n mod 65536)"

definition be16 :: "bytes \<Rightarrow> nat \<Rightarrow> nat" where
  "be16 b i = unat (b ! i) * 256 + unat (b ! (i + 1))"

definition be32 :: "bytes \<Rightarrow> nat \<Rightarrow> nat" where
  "be32 b i = be16 b i * 65536 + be16 b (i + 2)"

text \<open>
  Modelled from the spec: the fixtures \<open>pngBytesFor\<close> and \<open>jpegBytesFor\<close> of the
  specification's testable properties, which the repository does not define. They are the
  start of a PNG file (signature and IHDR chunk) and of a JPEG file (SOI and SOF0) of the
  given pixel dimensions.
\<close>

definition pngBytesFor :: "nat \<Rightarrow> nat \<Rightarrow> jsval" where
  "pngBytesFor wd ht =
     ArrayBuffer ([0x89, 0x50, 0x4E, 0x47, 0x0D, 0x0A, 0x1A, 0x0A, 0, 0, 0, 13, 0x49, 0x48, 0x44, 0x52]
                  @ be32_bytes wd @ be32_bytes ht)"

definition jpegBytesFor :: "nat \<Rightarrow> nat \<Rightarrow> jsval" where
  "jpegBytesFor wd ht =
     ArrayBuffer ([0xFF, 0xD8, 0xFF, 0xC0, 0x00, 0x11, 0x08] @ be16_bytes ht @ be16_bytes wd)"

text \<open>
  Modelled from the spec: the library \<open>lib/pdf-lib.min.js\<close> is not among the sources.
  This stand-in gives an embedded image the pixel dimensions written in its header (the
  native dimensions of the specification), rejects what has no such header, and serialises
  any list of pages, as the page count followed by the page sizes.
\<close>

definition ref_embedPng :: "jsval \<Rightarrow> js_error + image" where
  "ref_embedPng v =
     (let b = Uint8Array v
      in if 24 \<le> length b \<and> take 8 b = [0x89, 0x50, 0x4E, 0x47, 0x0D, 0x0A, 0x1A, 0x0A]
         then Inr \<lparr>img_width = be32 b 16, img_height = be32 b 20, img_source = v\<rparr>
         else Inl (JsError ''Error'' ''The input is not a PNG file!''))"

definition ref_embedJpg :: "jsval \<Rightarrow> js_error + image" where
  "ref_embedJpg v =
     (let b = Uint8Array v
      in if 11 \<le> length b \<and> take 4 b = [0xFF, 0xD8, 0xFF, 0xC0]
         then Inr \<lparr>img_width = be16 b 9, img_height = be16 b 7, img_source = v\<rparr>
         else Inl (JsError ''Error'' ''SOI not found in JPEG''))"

definition ref_save :: "page list \<Rightarrow> js_error + bytes" where
  "ref_save pages =
     Inr (word_of_nat (length pages)
          # concat (map (\<lambda>p. be16_bytes (page_width p) @ be16_bytes (page_height p)) pages))"

definition pdflib_ref :: pdflib where
  "pdflib_ref = \<lparr>embedPng = ref_embedPng, embedJpg = ref_embedJpg, save = ref_save\<rparr>"

text \<open>
  Surroundings in which everything works: the content script answers, every fetch returns
  a small PNG, every screenshot is a data URL that \<open>atob\<close> takes as it is.
\<close>

definition calm :: env where
  "calm =
     \<lparr>title_reply = Inr ''Quarterly Review'',
      urls_reply = Inr (Some [''https://cdn.example/p1'', ''https://cdn.example/p2'']),
      nav_reply = (\<lambda>k. Inr ()),
      net = (\<lambda>k. Inr (ok_response (Uint8Array (pngBytesFor 800 600)))),
      shot = (\<lambda>k. Inr ''data:image/png;base64,AAAA''),
      atob = (\<lambda>s. Inr s),
      download_reply = Inr (),
      lib = pdflib_ref\<rparr>"

definition blank :: document where
  "blank = \<lparr>querySelectorAll = (\<lambda>selector. []), body_innerText = [], doc_title = []\<rparr>"

definition shown_box :: "string \<Rightarrow> int \<Rightarrow> int \<Rightarrow> element" where
  "shown_box t wd ht =
     \<lparr>textContent = t, display = ''block'', visibility = ''visible'', rect_width = wd, rect_height = ht\<rparr>"

definition busy :: worker where
  "busy = idle\<lparr>activeCapture := Some \<lparr>tabId = 7, totalSlides = 3\<rparr>\<rparr>"

text \<open>A server that answers every request with 429 and \<open>Retry-After: 1\<close>.\<close>

definition throttled :: env where
  "throttled = calm\<lparr>net := (\<lambda>k. Inr (too_many_requests (Some ''1'')))\<rparr>"


text \<open>The content script cannot list the image URLs.\<close>

definition unlisted :: env where
  "unlisted = calm\<lparr>urls_reply := Inr None\<rparr>"

text \<open>The content script lists both image URLs, and the image host answers 500 to everything.\<close>

definition failing_host :: env where
  "failing_host = calm\<lparr>net := (\<lambda>k. Inr server_error)\<rparr>"

text \<open>A page whose body text carries a page counter, and nothing else.\<close>

definition counter_page :: document where
  "counter_page = blank\<lparr>body_innerText := ''Slide 3 of 10''\<rparr>"

text \<open>A page whose body text says \<open>3 of 900\<close> and which has four thumbnails.\<close>

definition long_page :: document where
  "long_page =
     blank\<lparr>body_innerText := ''Page 3 of 900'',
           querySelectorAll := (\<lambda>selector. if selector = ''[data-page]''
                                 then [shown_box [] 80 60, shown_box [] 80 60, shown_box [] 80 60,
                                       shown_box [] 80 60]
                                 else [])\<rparr>"

text \<open>A page with a page label that reads \<open>901 / 900\<close> behind a visible email form.\<close>

definition labelled_page :: document where
  \<open>labelled_page =
     blank\<lparr>querySelectorAll := (\<lambda>selector. if selector = ''.page-label'' then [shown_box ''901 / 900'' 60 20]
                                 else if selector = ''input[type="email"]'' then [shown_box [] 200 30]
                                 else [])\<rparr>\<close>

text \<open>A page whose page label names a total that is not a double.\<close>

definition rounded_page :: document where
  "rounded_page =
     blank\<lparr>querySelectorAll := (\<lambda>selector. if selector = ''.page-label''
                                 then [shown_box ''1 / 9007199254740993'' 60 20] else [])\<rparr>"

text \<open>A page with nothing but a visible email form.\<close>

definition gated_page :: document where
  \<open>gated_page =
     blank\<lparr>querySelectorAll := (\<lambda>selector. if selector = ''input[type="email"]'' then [shown_box [] 200 30]
                                 else [])\<rparr>\<close>

text \<open>
  A page with nothing but an empty gate container: displayed as a block and not hidden,
  with a bounding box of width 0 and height 0.
\<close>

definition empty_gate_page :: document where
  "empty_gate_page =
     blank\<lparr>querySelectorAll := (\<lambda>selector. if selector = ''.email-gate'' then [shown_box [] 0 0] else [])\<rparr>"

text \<open>
  A page with nothing but an email input in the same condition: displayed, not hidden,
  bounding box of width 0 and height 0.
\<close>

definition empty_email_page :: document where
  \<open>empty_email_page =
     blank\<lparr>querySelectorAll := (\<lambda>selector. if selector = ''input[type="email"]'' then [shown_box [] 0 0]
                                 else [])\<rparr>\<close>

section \<open>Properties of the numbers\<close>

lemma exponent_small: "n < 2 ^ 53 \<Longrightarrow> exponent n = 0"
  by (subst exponent.simps) simp

lemma round_nat_small: "n < 2 ^ 53 \<Longrightarrow> round_nat n = n"
  by (simp add: round_nat_def exponent_small)

lemma to_double_exact: "\<bar>i\<bar> < 2 ^ 53 \<Longrightarrow> to_double i = Num i"
proof -
  assume a: "\<bar>i\<bar> < 2 ^ 53"
  then have n: "nat \<bar>i\<bar> < 2 ^ 53"
    by (simp add: nat_less_iff)
  have "(2::nat) ^ 53 < 2 ^ 1024"
    by (rule power_strict_increasing) simp_all
  with n have "nat \<bar>i\<bar> < 2 ^ 1024" by (rule less_trans)
  with n show ?thesis
    by (simp add: to_double_def round_nat_small Let_def not_le [symmetric])
qed

declare to_double_exact [simp]

lemma exponent_large:
  "2 ^ 53 \<le> n \<Longrightarrow> 0 < exponent n \<and> 2 ^ 52 \<le> n div 2 ^ exponent n"
proof (induction n rule: exponent.induct)
  case (1 n)
  from "1.prems" have e: "exponent n = Suc (exponent (n div 2))"
    by (subst exponent.simps) simp
  show ?case
  proof (cases "n div 2 < 2 ^ 53")
    case True
    then have "exponent (n div 2) = 0" by (rule exponent_small)
    with e "1.prems" show ?thesis by simp
  next
    case False
    then have "2 ^ 53 \<le> n div 2" by simp
    with "1.IH" "1.prems" have "2 ^ 52 \<le> n div 2 div 2 ^ exponent (n div 2)" by simp
    then show ?thesis
      by (simp add: e div_mult2_eq)
  qed
qed

lemma round_nat_large: "2 ^ 53 \<le> n \<Longrightarrow> 2 ^ 53 \<le> round_nat n"
proof -
  assume a: "2 ^ 53 \<le> n"
  let ?e = "exponent n"
  let ?q = "n div 2 ^ ?e"
  from exponent_large [OF a] have e: "0 < ?e" and q: "2 ^ 52 \<le> ?q" by simp_all
  from e have "(2::nat) ^ 1 \<le> 2 ^ ?e"
    by (intro power_increasing) simp_all
  then have "(2::nat) \<le> 2 ^ ?e" by simp
  with q have "2 ^ 52 * 2 \<le> ?q * 2 ^ ?e"
    by (rule mult_le_mono)
  then have b: "2 ^ 53 \<le> ?q * 2 ^ ?e" by simp
  have "?q * 2 ^ ?e \<le> round_nat n"
    by (simp add: round_nat_def Let_def)
  with b show ?thesis by (rule le_trans)
qed

lemma exponent_upper: "n div 2 ^ exponent n < 2 ^ 53"
proof (induction n rule: exponent.induct)
  case (1 n)
  show ?case
  proof (cases "n < 2 ^ 53")
    case True
    then show ?thesis by (simp add: exponent_small)
  next
    case False
    then have "exponent n = Suc (exponent (n div 2))"
      by (subst exponent.simps) simp
    with "1.IH" False show ?thesis
      by (simp add: div_mult2_eq)
  qed
qed

text \<open>A magnitude of \<open>2^1024\<close> or more is an infinity.\<close>

lemma to_double_overflow:
  assumes "2 ^ 1024 \<le> n"
  shows "to_double (int n) = Infinity"
proof -
  let ?e = "exponent n"
  let ?q = "n div 2 ^ ?e"
  have "(2::nat) ^ 53 \<le> 2 ^ 1024"
    by (rule power_increasing) simp_all
  from this assms have big: "2 ^ 53 \<le> n" by (rule le_trans)
  from exponent_large [OF big] have q: "2 ^ 52 \<le> ?q" by simp
  have "n < (?q + 1) * 2 ^ ?e"
    by (simp add: algebra_simps dividend_less_times_div)
  also have "\<dots> \<le> 2 ^ 53 * 2 ^ ?e"
    using exponent_upper [of n] by (intro mult_le_mono1) simp
  also have "\<dots> = 2 ^ (53 + ?e)"
    by (simp add: power_add)
  finally have "(2::nat) ^ 1024 < 2 ^ (53 + ?e)"
    using assms by simp
  then have "1024 < 53 + ?e"
    by (rule power_less_imp_less_exp [rotated]) simp
  then have e: "972 \<le> ?e" by simp
  then have "(2::nat) ^ 972 \<le> 2 ^ ?e"
    by (intro power_increasing) simp_all
  with q have "2 ^ 52 * 2 ^ 972 \<le> ?q * 2 ^ ?e"
    by (rule mult_le_mono)
  moreover have "(2::nat) ^ 52 * 2 ^ 972 = 2 ^ 1024"
    by (simp add: power_add [symmetric])
  moreover have "?q * 2 ^ ?e \<le> round_nat n"
    by (simp add: round_nat_def Let_def)
  ultimately have "2 ^ 1024 \<le> round_nat n" by simp
  then show ?thesis
    by (simp add: to_double_def Let_def)
qed

lemma to_double_nat_cases:
  "(n < 2 ^ 53 \<and> to_double (int n) = Num (int n))
   \<or> (2 ^ 53 \<le> n \<and> (to_double (int n) = Infinity \<or> (\<exists>k. 2 ^ 53 \<le> k \<and> to_double (int n) = Num k)))"
proof (cases "n < 2 ^ 53")
  case True
  then have "\<bar>int n\<bar> < 2 ^ 53" by simp
  then have "to_double (int n) = Num (int n)" by (rule to_double_exact)
  with True show ?thesis by simp
next
  case False
  then have a: "2 ^ 53 \<le> n" by simp
  from round_nat_large [OF a] have "(2::int) ^ 53 \<le> int (round_nat n)"
    by (metis of_nat_le_iff of_nat_numeral of_nat_power)
  with a show ?thesis
    by (auto simp: to_double_def Let_def)
qed

text \<open>Above \<open>2^53\<close> not every integer is a double: ties go to the even significand.\<close>

lemma to_double_examples:
  "to_double 9007199254740993 = Num 9007199254740992"
  "to_double 9007199254740995 = Num 9007199254740996"
  by (simp_all add: to_double_def round_nat_def exponent.simps Let_def)

lemma dropWhile_digits: "m \<noteq> [] \<Longrightarrow> list_all is_digit m \<Longrightarrow> dropWhile is_space m = m"
  by (cases m) (auto simp: is_digit_def is_space_def)

text \<open>\<open>parseInt\<close> of a run of digits is its decimal value, rounded.\<close>

lemma parseInt_digits:
  assumes "m \<noteq> []" "list_all is_digit m"
  shows "parseInt m = to_double (int (nat_of_digits m))"
proof -
  from assms obtain c cs where m: "m = c # cs" by (cases m) auto
  with assms have c: "is_digit c" by simp
  then have sign: "c \<noteq> CHR ''-''" "c \<noteq> CHR ''+''" "\<not> is_space c"
    by (auto simp: is_digit_def is_space_def)
  from assms(2) have tw: "takeWhile is_digit m = m"
    by (simp add: list_all_iff)
  have "parseInt_unsigned m = Some (int (nat_of_digits m))"
  proof (cases cs)
    case Nil
    with m tw c show ?thesis by (simp add: parseInt_unsigned_def)
  next
    case (Cons x xs)
    with m assms(2) have "is_digit x" by simp
    then have "x \<noteq> CHR ''x''" "x \<noteq> CHR ''X''"
      by (auto simp: is_digit_def)
    with m Cons tw assms(1) show ?thesis
      by (simp add: parseInt_unsigned_def Let_def)
  qed
  with m sign show ?thesis
    by (simp add: parseInt_def Let_def)
qed


section \<open>Properties of fetchImageWithRetry\<close>

lemma fetches_emit [simp]: "fetches (emit e w) = fetches w"
  by (simp add: emit_def)

lemma fetches_delay [simp]: "fetches (delay ms w) = fetches w"
  by (simp add: delay_def)

lemma delays_emit_Delay [simp]: "delays (emit (Delay ms) w) = delays w @ [ms]"
  by (simp add: delays_def emit_def List.map_filter_def)

lemma delays_emit_Fetch [simp]: "delays (emit (Fetch u) w) = delays w"
  by (simp add: delays_def emit_def List.map_filter_def)

lemma delays_fetches_update [simp]: "delays (w\<lparr>fetches := n\<rparr>) = delays w"
  by (simp add: delays_def)

text \<open>One turn of the loop, for each way it can go.\<close>

lemma fetch_loop_429:
  "attempt \<le> m \<Longrightarrow> net E (fetches w) = Inr r \<Longrightarrow> status r = 429 \<Longrightarrow>
   fetch_loop E url m attempt w =
     fetch_loop E url m (Suc attempt)
       (delay (jsmul (jsmul (retry_hint r) (Num 1000)) (Num (int attempt)))
          (emit (Fetch url) (w\<lparr>fetches := Suc (fetches w)\<rparr>)))"
  by (subst fetch_loop.simps) (simp add: do_fetch_def)


lemma fetch_loop_past: "m < attempt \<Longrightarrow> fetch_loop E url m attempt w = (Inr Undefined, w)"
  by (subst fetch_loop.simps) simp

lemma fetch_loop_status_retry:
  "attempt < m \<Longrightarrow> net E (fetches w) = Inr r \<Longrightarrow> status r \<noteq> 429 \<Longrightarrow> \<not> response_ok r \<Longrightarrow>
   fetch_loop E url m attempt w =
     fetch_loop E url m (Suc attempt)
       (delay (jsmul (Num 1000) (Num (int attempt))) (emit (Fetch url) (w\<lparr>fetches := Suc (fetches w)\<rparr>)))"
  by (subst fetch_loop.simps) (simp add: do_fetch_def)

lemma fetch_loop_status_last:
  "net E (fetches w) = Inr r \<Longrightarrow> status r \<noteq> 429 \<Longrightarrow> \<not> response_ok r \<Longrightarrow>
   fetch_loop E url m m w =
     (Inl (JsError ''Error'' (''HTTP '' @ show_nat (status r))),
      emit (Fetch url) (w\<lparr>fetches := Suc (fetches w)\<rparr>))"
  by (subst fetch_loop.simps) (simp add: do_fetch_def)

lemma parseInt_digit:
  "parseInt ''0'' = Num 0" "parseInt ''1'' = Num 1" "parseInt ''2'' = Num 2" "parseInt ''3'' = Num 3"
  by (simp_all add: parseInt_def parseInt_unsigned_def is_space_def is_digit_def nat_of_digits_def
      digit_val_def to_double_exact)

lemma retry_hint_cases:
  "retry_hint r = (case retry_after r of None \<Rightarrow> Num 2 | Some h \<Rightarrow> if h = [] then Num 2 else parseInt h)"
  by (simp add: retry_hint_def retry_after_text_def parseInt_digit split: option.split)

lemma show_nat_500: "show_nat 500 = ''500''"
  by code_simp

text \<open>
  When every attempt is answered with 429, the loop runs out and the function returns
  \<open>undefined\<close>: the 429 branch continues past the test \<open>attempt === maxRetries\<close> of the
  catch block, the only place that throws.
\<close>

lemma fetch_loop_all_429:
  "(\<And>k. k < Suc m - attempt \<Longrightarrow> \<exists>r. net E (fetches w + k) = Inr r \<and> status r = 429) \<Longrightarrow>
   fst (fetch_loop E url m attempt w) = Inr Undefined"
proof (induction "Suc m - attempt" arbitrary: attempt w)
  case 0
  then have "m < attempt" by simp
  then show ?case by (simp add: fetch_loop_past)
next
  case (Suc n)
  then have le: "attempt \<le> m" by simp
  have "0 < Suc m - attempt" using Suc.hyps(2) by simp
  from Suc.prems [OF this] obtain r where r: "net E (fetches w) = Inr r" "status r = 429"
    by auto
  let ?w = "delay (jsmul (jsmul (retry_hint r) (Num 1000)) (Num (int attempt)))
          (emit (Fetch url) (w\<lparr>fetches := Suc (fetches w)\<rparr>))"
  have "fst (fetch_loop E url m (Suc attempt) ?w) = Inr Undefined"
  proof (rule Suc.hyps(1))
    show "n = Suc m - Suc attempt" using Suc.hyps(2) by simp
  next
    fix k assume "k < Suc m - Suc attempt"
    then have "Suc k < Suc m - attempt" by simp
    from Suc.prems [OF this] show "\<exists>r. net E (fetches ?w + k) = Inr r \<and> status r = 429"
      by simp
  qed
  then show ?case by (simp add: fetch_loop_429 [OF le r])
qed

text \<open>
  C3. The claim: a fetch whose every attempt up to \<open>maxAttempts\<close> receives HTTP 429
  fails with an error; with \<open>maxAttempts = 3\<close>, three 429 responses give an error and no
  result. The code at that input: three fetches, three sleeps (the last one after the
  last attempt), and the value \<open>undefined\<close> returned, with nothing thrown.
\<close>

theorem fetch_three_429_undefined:
  "fetchImageWithRetry throttled ''https://cdn.example/p1'' 3 idle =
     (Inr Undefined,
      idle\<lparr>fetches := 3,
           effects := [Fetch ''https://cdn.example/p1'', Delay (Num 1000),
                       Fetch ''https://cdn.example/p1'', Delay (Num 2000),
                       Fetch ''https://cdn.example/p1'', Delay (Num 3000)]\<rparr>)"
proof -
  have n: "net throttled k = Inr (too_many_requests (Some ''1''))" for k
    by (simp add: throttled_def)
  have s: "status (too_many_requests (Some ''1'')) = 429"
    by (simp add: too_many_requests_def)
  have h: "retry_hint (too_many_requests (Some ''1'')) = Num 1"
    by (simp add: retry_hint_cases too_many_requests_def parseInt_digit)
  show ?thesis
    unfolding fetchImageWithRetry_def
    by (simp add: fetch_loop_429 [OF _ n s] fetch_loop_past h delay_def emit_def idle_def)
qed

section \<open>Properties of startCapture\<close>

text \<open>
  C2. A capture request that arrives while a capture is active is answered with the
  error \<open>A capture is already in progress\<close> and changes nothing else: the slot
  \<open>activeCapture\<close> keeps the running capture, nothing is fetched, navigated or captured,
  and no request is stored anywhere. (The progress and the images of the running capture
  are local to its own call, which this request never touches.)
\<close>

theorem startCapture_busy:
  "activeCapture w = Some c \<Longrightarrow>
   startCapture E tab tot w =
     w\<lparr>effects := effects w @ [ToPopup (CAPTURE_ERROR ''A capture is already in progress'')]\<rparr>"
  by (simp add: startCapture_def sendError_def emit_def error_text_def)

theorem startCapture_busy_witness:
  "activeCapture busy = Some \<lparr>tabId = 7, totalSlides = 3\<rparr> \<and>
   startCapture calm 9 5 busy =
     busy\<lparr>effects := [ToPopup (CAPTURE_ERROR ''A capture is already in progress'')]\<rparr>"
proof -
  have a: "activeCapture busy = Some \<lparr>tabId = 7, totalSlides = 3\<rparr>"
    by (simp add: busy_def idle_def)
  show ?thesis
    using a startCapture_busy [OF a, of calm 9 5] by (simp add: busy_def idle_def)
qed

section \<open>Backoff on 429\<close>


lemma delays_append_effects:
  "delays (w\<lparr>effects := effects w @ es\<rparr>) =
     delays w @ List.map_filter (\<lambda>e. case e of Delay ms \<Rightarrow> Some ms | _ \<Rightarrow> None) es"
  by (simp add: delays_def List.map_filter_def)









section \<open>A byte fetch that fails after the URLs were obtained\<close>

lemma untouched_refl [simp]: "untouched w w"
  by (simp add: untouched_def)

lemma untouched_step [simp]:
  "untouched (emit e w) w' = untouched w w'"
  "untouched (delay ms w) w' = untouched w w'"
  "untouched (w\<lparr>fetches := n\<rparr>) w' = untouched w w'"
  by (simp_all add: untouched_def emit_def delay_def)

lemma untouched_to [simp]:
  "untouched w (emit e w') = untouched w w'"
  "untouched w (w'\<lparr>fetches := n\<rparr>) = untouched w w'"
  by (simp_all add: untouched_def emit_def delay_def)

lemma fetch_loop_untouched: "untouched w (snd (fetch_loop E url m a w))"
proof (induction E url m a w rule: fetch_loop.induct)
  case (1 E url m a w)
  show ?case
    apply (subst fetch_loop.simps)
    using 1
    apply (auto simp: do_fetch_def sendProgressUpdate_def split: sum.splits)
    done
qed

lemma fetch_images_untouched: "untouched w (snd (fetch_images E n i urls acc w))"
proof (induction urls arbitrary: i acc w)
  case Nil
  show ?case by simp
next
  case (Cons u us)
  have a: "untouched w (snd (fetchImageWithRetry E u 3 (sendProgressUpdate (i + 1) n w)))"
    using fetch_loop_untouched [of "sendProgressUpdate (i + 1) n w" E u 3 1]
    by (simp add: fetchImageWithRetry_def sendProgressUpdate_def)
  show ?case
  proof (cases "fetchImageWithRetry E u 3 (sendProgressUpdate (i + 1) n w)")
    case (Pair res w1)
    with a have u1: "untouched w w1" by simp
    show ?thesis
    proof (cases res)
      case (Inl e)
      with Pair u1 show ?thesis by simp
    next
      case (Inr v)
      have "untouched w1 (snd (fetch_images E n (Suc i) us (acc @ [v]) w1))"
        by (rule Cons.IH)
      with u1 have "untouched w (snd (fetch_images E n (Suc i) us (acc @ [v]) w1))"
        by (simp add: untouched_def)
      with Pair Inr show ?thesis by simp
    qed
  qed
qed

lemma fetchImagesFromUrls_untouched: "untouched w (snd (fetchImagesFromUrls E urls w))"
  by (simp add: fetchImagesFromUrls_def fetch_images_untouched)

lemma capture_run_direct_failure:
  assumes t: "title_reply E = Inr title"
    and u: "urls_reply E = Inr (Some urls)" "length urls = tot"
    and f: "fst (fetchImagesFromUrls E urls
                  (emit (ToContent (FETCH_SLIDE_URLS tot)) (emit (ToContent GET_DOCUMENT_TITLE) w))) = Inl err"
  shows "capture_run E tab tot w =
     (Inl err, snd (fetchImagesFromUrls E urls
                  (emit (ToContent (FETCH_SLIDE_URLS tot)) (emit (ToContent GET_DOCUMENT_TITLE) w))))"
proof -
  let ?w2 = "emit (ToContent (FETCH_SLIDE_URLS tot)) (emit (ToContent GET_DOCUMENT_TITLE) w)"
  obtain res w3 where p: "fetchImagesFromUrls E urls ?w2 = (res, w3)"
    by (cases "fetchImagesFromUrls E urls ?w2")
  with f have "res = Inl err" by simp
  with p t u show ?thesis
    by (simp add: capture_run_def fetchSlideUrlsViaApi_def Let_def)
qed

lemma untouched_trans: "untouched a b \<Longrightarrow> untouched b c \<Longrightarrow> untouched a c"
  by (simp add: untouched_def)

lemma untouched_popup [simp]:
  "untouched w (sendProgressUpdate i n w') = untouched w w'"
  "untouched w (sendComplete w') = untouched w w'"
  "untouched w (sendError e w') = untouched w w'"
  by (simp_all add: sendProgressUpdate_def sendComplete_def sendError_def)

lemma fetchSlideUrlsViaApi_fst:
  "fst (fetchSlideUrlsViaApi E tab tot w) =
     (case urls_reply E of
        Inr (Some urls) \<Rightarrow> if length urls = tot then Some urls else None
      | _ \<Rightarrow> None)"
  by (simp add: fetchSlideUrlsViaApi_def Let_def split: sum.splits option.splits)

lemma fetchSlideUrlsViaApi_snd:
  "snd (fetchSlideUrlsViaApi E tab tot w) = emit (ToContent (FETCH_SLIDE_URLS tot)) w"
  by (simp add: fetchSlideUrlsViaApi_def Let_def split: sum.splits option.splits)

lemma capture_run_direct_untouched:
  assumes u: "urls_reply E = Inr (Some urls)" "length urls = tot"
  shows "untouched w (snd (capture_run E tab tot w))"
proof (cases "title_reply E")
  case (Inl e)
  then show ?thesis by (simp add: capture_run_def)
next
  case (Inr title)
  let ?w2 = "emit (ToContent (FETCH_SLIDE_URLS tot)) (emit (ToContent GET_DOCUMENT_TITLE) w)"
  obtain res w3 where p: "fetchImagesFromUrls E urls ?w2 = (res, w3)"
    by (cases "fetchImagesFromUrls E urls ?w2")
  have "untouched ?w2 (snd (fetchImagesFromUrls E urls ?w2))"
    by (rule fetchImagesFromUrls_untouched)
  with p have w3: "untouched w w3" by simp
  show ?thesis
  proof (cases res)
    case (Inl e)
    with Inr u p w3 show ?thesis
      by (simp add: capture_run_def fetchSlideUrlsViaApi_def Let_def)
  next
    case imgs: (Inr imageDataArray)
    show ?thesis
    proof (cases "generatePdf (lib E) imageDataArray")
      case (Inl e)
      with Inr u p imgs w3 show ?thesis
        by (simp add: capture_run_def fetchSlideUrlsViaApi_def Let_def)
    next
      case pdf: (Inr pdfBytes)
      show ?thesis
      proof (cases "download_reply E")
        case (Inl e)
        with Inr u p imgs pdf w3 show ?thesis
          by (simp add: capture_run_def fetchSlideUrlsViaApi_def Let_def downloadPdf_def)
      next
        case d: (Inr x)
        with Inr u p imgs pdf w3 show ?thesis
          by (simp add: capture_run_def fetchSlideUrlsViaApi_def Let_def downloadPdf_def)
      qed
    qed
  qed
qed

lemma startCapture_direct_untouched:
  assumes "urls_reply E = Inr (Some urls)" "length urls = tot"
  shows "screenshots (startCapture E tab tot w) = screenshots w
         \<and> navigations (startCapture E tab tot w) = navigations w"
proof (cases "activeCapture w")
  case (Some c)
  then show ?thesis by (simp add: startCapture_def sendError_def emit_def)
next
  case None
  let ?w0 = "w\<lparr>activeCapture := Some \<lparr>tabId = tab, totalSlides = tot\<rparr>\<rparr>"
  obtain res w1 where r: "capture_run E tab tot ?w0 = (res, w1)"
    by (cases "capture_run E tab tot ?w0")
  from capture_run_direct_untouched [OF assms, of ?w0 tab] r have "untouched ?w0 w1" by simp
  then have "screenshots w1 = screenshots w" "navigations w1 = navigations w"
    by (simp_all add: untouched_def)
  with None r show ?thesis
    by (cases res) (simp_all add: startCapture_def sendError_def emit_def)
qed

lemma kept_refl [simp]: "kept w w"
  by (simp add: kept_def)

lemma kept_trans: "kept a b \<Longrightarrow> kept b c \<Longrightarrow> kept a c"
  by (auto simp: kept_def)

lemma kept_step:
  "kept w (emit e w)"
  "kept w (delay ms w)"
  "kept w (sendProgressUpdate i n w)"
  "kept w (snd (sendNavigation E m w))"
  "kept w (snd (captureScreenshot E w))"
  by (auto simp: kept_def emit_def delay_def sendProgressUpdate_def sendNavigation_def
      captureScreenshot_def)

lemma shot_loop_kept: "kept w (snd (shot_loop E tot i acc w))"
proof (induction E tot i acc w rule: shot_loop.induct)
  case (1 E tot i acc w)
  show ?case
  proof (cases "i \<le> tot")
    case False
    then show ?thesis by (subst shot_loop.simps) simp
  next
    case True
    let ?w0 = "sendProgressUpdate i tot w"
    obtain r1 w1 where c: "captureScreenshot E ?w0 = (r1, w1)"
      by (cases "captureScreenshot E ?w0")
    have "kept ?w0 (snd (captureScreenshot E ?w0))" by (rule kept_step)
    with c have "kept ?w0 w1" by simp
    with kept_step(3) have k1: "kept w w1" by (rule kept_trans)
    show ?thesis
    proof (cases r1)
      case (Inl e)
      with True c k1 show ?thesis by (subst shot_loop.simps) simp
    next
      case (Inr dataUrl)
      show ?thesis
      proof (cases "dataUrlToArrayBuffer E dataUrl")
        case (Inl e)
        with True c Inr k1 show ?thesis by (subst shot_loop.simps) simp
      next
        case buf: (Inr buf)
        show ?thesis
        proof (cases "i < tot")
          case False
          have "kept w1 (snd (shot_loop E tot (Suc i) (acc @ [buf]) w1))"
            using "1.IH"(2) [OF True c [symmetric] Inr buf False] .
          with k1 have "kept w (snd (shot_loop E tot (Suc i) (acc @ [buf]) w1))"
            by (rule kept_trans)
          with True c Inr buf False show ?thesis by (subst shot_loop.simps) simp
        next
          case lt: True
          obtain r2 w2 where n: "sendNavigation E GO_TO_NEXT_SLIDE w1 = (r2, w2)"
            by (cases "sendNavigation E GO_TO_NEXT_SLIDE w1")
          have "kept w1 (snd (sendNavigation E GO_TO_NEXT_SLIDE w1))" by (rule kept_step)
          with n have "kept w1 w2" by simp
          with k1 have k2: "kept w w2" by (rule kept_trans)
          show ?thesis
          proof (cases r2)
            case (Inl e)
            with True c Inr buf lt n k2 show ?thesis by (subst shot_loop.simps) simp
          next
            case u: (Inr u)
            let ?w3 = "delay (Num 500) (delay (Num 800) w2)"
            have k3: "kept w2 ?w3"
              by (rule kept_trans [OF kept_step(2) kept_step(2)])
            have "kept ?w3 (snd (shot_loop E tot (Suc i) (acc @ [buf]) ?w3))"
              using "1.IH"(1) [OF True c [symmetric] Inr buf lt n [symmetric] u] .
            with k3 have "kept w2 (snd (shot_loop E tot (Suc i) (acc @ [buf]) ?w3))"
              by (rule kept_trans)
            with k2 have "kept w (snd (shot_loop E tot (Suc i) (acc @ [buf]) ?w3))"
              by (rule kept_trans)
            with True c Inr buf lt n u show ?thesis by (subst shot_loop.simps) simp
          qed
        qed
      qed
    qed
  qed
qed

lemma captureViaScreenshots_first:
  "ToContent (GO_TO_SLIDE 1) \<in> set (effects (snd (captureViaScreenshots E tab tot w)))"
proof (cases "nav_reply E (navigations w)")
  case (Inl e)
  then show ?thesis
    by (simp add: captureViaScreenshots_def sendNavigation_def emit_def)
next
  case (Inr u)
  let ?w1 = "emit (ToContent (GO_TO_SLIDE 1)) (w\<lparr>navigations := Suc (navigations w)\<rparr>)"
  have "kept (delay (Num 800) ?w1) (snd (shot_loop E tot 1 [] (delay (Num 800) ?w1)))"
    by (rule shot_loop_kept)
  then have "ToContent (GO_TO_SLIDE 1) \<in> set (effects (snd (shot_loop E tot 1 [] (delay (Num 800) ?w1))))"
    by (auto simp: kept_def delay_def emit_def)
  with Inr show ?thesis
    by (simp add: captureViaScreenshots_def sendNavigation_def)
qed

lemma startCapture_fallback:
  assumes "activeCapture w = None" "title_reply E = Inr title"
    and "fst (fetchSlideUrlsViaApi E tab tot w) = None"
  shows "ToContent (GO_TO_SLIDE 1) \<in> set (effects (startCapture E tab tot w))"
proof -
  let ?w0 = "w\<lparr>activeCapture := Some \<lparr>tabId = tab, totalSlides = tot\<rparr>\<rparr>"
  let ?w1 = "emit (ToContent GET_DOCUMENT_TITLE) ?w0"
  let ?w2 = "emit (ToContent (FETCH_SLIDE_URLS tot)) ?w1"
  from assms(3) have n: "fetchSlideUrlsViaApi E tab tot ?w1 = (None, ?w2)"
    using fetchSlideUrlsViaApi_fst [of E tab tot w] fetchSlideUrlsViaApi_fst [of E tab tot ?w1]
      fetchSlideUrlsViaApi_snd [of E tab tot ?w1]
    by (simp add: prod_eq_iff)
  obtain res w3 where c: "captureViaScreenshots E tab tot ?w2 = (res, w3)"
    by (cases "captureViaScreenshots E tab tot ?w2")
  from captureViaScreenshots_first [of E tab tot ?w2] c
  have g: "ToContent (GO_TO_SLIDE 1) \<in> set (effects w3)" by simp
  obtain r w4 where run: "capture_run E tab tot ?w0 = (r, w4)"
    by (cases "capture_run E tab tot ?w0")
  have "ToContent (GO_TO_SLIDE 1) \<in> set (effects w4)"
  proof (cases res)
    case (Inl e)
    with run assms(2) n c g show ?thesis by (simp add: capture_run_def Let_def)
  next
    case imgs: (Inr imageDataArray)
    show ?thesis
    proof (cases "generatePdf (lib E) imageDataArray")
      case (Inl e)
      with run assms(2) n c g imgs show ?thesis
        by (auto simp: capture_run_def Let_def sendProgressUpdate_def emit_def)
    next
      case pdf: (Inr pdfBytes)
      show ?thesis
      proof (cases "download_reply E")
        case (Inl e)
        with run assms(2) n c g imgs pdf show ?thesis
          by (auto simp: capture_run_def Let_def downloadPdf_def sendProgressUpdate_def emit_def)
      next
        case d: (Inr x)
        with run assms(2) n c g imgs pdf show ?thesis
          by (auto simp: capture_run_def Let_def downloadPdf_def sendProgressUpdate_def
              sendComplete_def emit_def)
      qed
    qed
  qed
  with assms(1) run show ?thesis
    by (cases r) (simp_all add: startCapture_def sendError_def emit_def)
qed

text \<open>The run in which a byte fetch throws after the URL list was obtained.\<close>

lemma byte_fetch_failure_run:
  assumes "activeCapture w = None"
    and "title_reply E = Inr title"
    and "urls_reply E = Inr (Some urls)" and "length urls = tot"
    and "fst (fetchImagesFromUrls E urls
           (emit (ToContent (FETCH_SLIDE_URLS tot))
             (emit (ToContent GET_DOCUMENT_TITLE)
               (w\<lparr>activeCapture := Some \<lparr>tabId = tab, totalSlides = tot\<rparr>\<rparr>)))) = Inl err"
  shows "startCapture E tab tot w =
           (sendError err
             (snd (fetchImagesFromUrls E urls
               (emit (ToContent (FETCH_SLIDE_URLS tot))
                 (emit (ToContent GET_DOCUMENT_TITLE)
                   (w\<lparr>activeCapture := Some \<lparr>tabId = tab, totalSlides = tot\<rparr>\<rparr>))))))
           \<lparr>activeCapture := None\<rparr>
         \<and> last (effects (startCapture E tab tot w)) = ToPopup (CAPTURE_ERROR (error_text err))
         \<and> screenshots (startCapture E tab tot w) = screenshots w
         \<and> navigations (startCapture E tab tot w) = navigations w
         \<and> activeCapture (startCapture E tab tot w) = None"
proof -
  let ?w0 = "w\<lparr>activeCapture := Some \<lparr>tabId = tab, totalSlides = tot\<rparr>\<rparr>"
  let ?w2 = "emit (ToContent (FETCH_SLIDE_URLS tot)) (emit (ToContent GET_DOCUMENT_TITLE) ?w0)"
  let ?w3 = "snd (fetchImagesFromUrls E urls ?w2)"
  have run: "capture_run E tab tot ?w0 = (Inl err, ?w3)"
    using assms(2-5) by (rule capture_run_direct_failure)
  have eq: "startCapture E tab tot w = (sendError err ?w3)\<lparr>activeCapture := None\<rparr>"
    using assms(1) by (simp add: startCapture_def run)
  have "untouched ?w2 ?w3"
    by (rule fetchImagesFromUrls_untouched)
  then have k: "screenshots ?w3 = screenshots w" "navigations ?w3 = navigations w"
    by (simp_all add: untouched_def emit_def)
  show ?thesis
    unfolding eq using k by (simp add: sendError_def emit_def)
qed

text \<open>
  C1, as amended. When the content script has returned all \<open>totalSlides\<close> image URLs
  and a later byte fetch throws (its retries are used up), \<open>startCapture\<close> does not turn
  to the screenshot method: the error goes to the catch block of \<open>startCapture\<close>, the popup
  is sent \<open>CAPTURE_ERROR\<close> with the text of that error as the last message of the run, no
  screenshot is taken, no navigation message is sent, and \<open>activeCapture\<close> is cleared. The
  screenshot method is chosen only when the URL list is not obtained: in every run in
  which the list is obtained, whatever the fetches, the title and the library do, no
  screenshot is taken and no navigation message is sent; and in a run that starts, gets
  the title and does not obtain the list, the screenshot method begins with \<open>GO_TO_SLIDE 1\<close>.
\<close>

theorem byte_fetch_failure_ends_capture:
  "(activeCapture w = None \<and> title_reply E = Inr title
      \<and> urls_reply E = Inr (Some urls) \<and> length urls = tot
      \<and> fst (fetchImagesFromUrls E urls
           (emit (ToContent (FETCH_SLIDE_URLS tot))
             (emit (ToContent GET_DOCUMENT_TITLE)
               (w\<lparr>activeCapture := Some \<lparr>tabId = tab, totalSlides = tot\<rparr>\<rparr>)))) = Inl err \<longrightarrow>
      startCapture E tab tot w =
           (sendError err
             (snd (fetchImagesFromUrls E urls
               (emit (ToContent (FETCH_SLIDE_URLS tot))
                 (emit (ToContent GET_DOCUMENT_TITLE)
                   (w\<lparr>activeCapture := Some \<lparr>tabId = tab, totalSlides = tot\<rparr>\<rparr>))))))
           \<lparr>activeCapture := None\<rparr>
         \<and> last (effects (startCapture E tab tot w)) = ToPopup (CAPTURE_ERROR (error_text err))
         \<and> screenshots (startCapture E tab tot w) = screenshots w
         \<and> navigations (startCapture E tab tot w) = navigations w
         \<and> activeCapture (startCapture E tab tot w) = None)
   \<and> (urls_reply E' = Inr (Some urls') \<and> length urls' = tot' \<longrightarrow>
         fst (fetchSlideUrlsViaApi E' tab' tot' w') = Some urls'
         \<and> screenshots (startCapture E' tab' tot' w') = screenshots w'
         \<and> navigations (startCapture E' tab' tot' w') = navigations w')
   \<and> (activeCapture w'' = None \<and> title_reply E'' = Inr title''
         \<and> fst (fetchSlideUrlsViaApi E'' tab'' tot'' w'') = None \<longrightarrow>
         ToContent (GO_TO_SLIDE 1) \<in> set (effects (startCapture E'' tab'' tot'' w'')))"
proof (intro conjI impI)
  assume a: "activeCapture w = None \<and> title_reply E = Inr title
      \<and> urls_reply E = Inr (Some urls) \<and> length urls = tot
      \<and> fst (fetchImagesFromUrls E urls
           (emit (ToContent (FETCH_SLIDE_URLS tot))
             (emit (ToContent GET_DOCUMENT_TITLE)
               (w\<lparr>activeCapture := Some \<lparr>tabId = tab, totalSlides = tot\<rparr>\<rparr>)))) = Inl err"
  then have r: "startCapture E tab tot w =
           (sendError err
             (snd (fetchImagesFromUrls E urls
               (emit (ToContent (FETCH_SLIDE_URLS tot))
                 (emit (ToContent GET_DOCUMENT_TITLE)
                   (w\<lparr>activeCapture := Some \<lparr>tabId = tab, totalSlides = tot\<rparr>\<rparr>))))))
           \<lparr>activeCapture := None\<rparr>
         \<and> last (effects (startCapture E tab tot w)) = ToPopup (CAPTURE_ERROR (error_text err))
         \<and> screenshots (startCapture E tab tot w) = screenshots w
         \<and> navigations (startCapture E tab tot w) = navigations w
         \<and> activeCapture (startCapture E tab tot w) = None"
    by (intro byte_fetch_failure_run [where title = title]) simp_all
  from r show "startCapture E tab tot w =
           (sendError err
             (snd (fetchImagesFromUrls E urls
               (emit (ToContent (FETCH_SLIDE_URLS tot))
                 (emit (ToContent GET_DOCUMENT_TITLE)
                   (w\<lparr>activeCapture := Some \<lparr>tabId = tab, totalSlides = tot\<rparr>\<rparr>))))))
           \<lparr>activeCapture := None\<rparr>"
    by (rule conjunct1)
  from r show "last (effects (startCapture E tab tot w)) = ToPopup (CAPTURE_ERROR (error_text err))"
    by (elim conjE)
  from r show "screenshots (startCapture E tab tot w) = screenshots w"
    by (elim conjE)
  from r show "navigations (startCapture E tab tot w) = navigations w"
    by (elim conjE)
  from r show "activeCapture (startCapture E tab tot w) = None"
    by (elim conjE)
next
  assume b: "urls_reply E' = Inr (Some urls') \<and> length urls' = tot'"
  then show "fst (fetchSlideUrlsViaApi E' tab' tot' w') = Some urls'"
    by (simp add: fetchSlideUrlsViaApi_fst)
  from b startCapture_direct_untouched [of E' urls' tot' tab' w']
  show "screenshots (startCapture E' tab' tot' w') = screenshots w'"
    and "navigations (startCapture E' tab' tot' w') = navigations w'"
    by simp_all
next
  assume "activeCapture w'' = None \<and> title_reply E'' = Inr title''
         \<and> fst (fetchSlideUrlsViaApi E'' tab'' tot'' w'') = None"
  then show "ToContent (GO_TO_SLIDE 1) \<in> set (effects (startCapture E'' tab'' tot'' w''))"
    using startCapture_fallback [of w'' E'' title'' tab'' tot''] by simp
qed

lemma failing_host_one:
  "fetchImageWithRetry failing_host u 3 w =
     (Inl (JsError ''Error'' ''HTTP 500''),
      w\<lparr>fetches := fetches w + 3,
        effects := effects w @ [Fetch u, Delay (Num 1000), Fetch u, Delay (Num 2000), Fetch u]\<rparr>)"
proof -
  have n: "net failing_host k = Inr server_error" for k
    by (simp add: failing_host_def)
  have s: "status server_error \<noteq> 429" "\<not> response_ok server_error" "status server_error = 500"
    by (simp_all add: server_error_def response_ok_def)
  let ?w1 = "delay (Num 1000) (emit (Fetch u) (w\<lparr>fetches := Suc (fetches w)\<rparr>))"
  let ?w2 = "delay (Num 2000) (emit (Fetch u) (?w1\<lparr>fetches := Suc (fetches ?w1)\<rparr>))"
  let ?w3 = "emit (Fetch u) (?w2\<lparr>fetches := Suc (fetches ?w2)\<rparr>)"
  have s1: "fetch_loop failing_host u 3 1 w = fetch_loop failing_host u 3 2 ?w1"
    using fetch_loop_status_retry [of 1 3 failing_host w server_error u] n s
    by (simp add: numeral_2_eq_2)
  have s2: "fetch_loop failing_host u 3 2 ?w1 = fetch_loop failing_host u 3 3 ?w2"
    using fetch_loop_status_retry [of 2 3 failing_host ?w1 server_error u] n s
    by (simp add: numeral_3_eq_3)
  have s3: "fetch_loop failing_host u 3 3 ?w2 = (Inl (JsError ''Error'' ''HTTP 500''), ?w3)"
    using fetch_loop_status_last [of failing_host ?w2 server_error u 3] n s
    by (simp add: show_nat_500)
  have "fetchImageWithRetry failing_host u 3 w = (Inl (JsError ''Error'' ''HTTP 500''), ?w3)"
    unfolding fetchImageWithRetry_def using s1 s2 s3 by simp
  then show ?thesis
    by (simp add: delay_def emit_def)
qed

lemma failing_host_fetch:
  "fetchImagesFromUrls failing_host [''https://cdn.example/p1'', ''https://cdn.example/p2''] w =
     (Inl (JsError ''Error'' ''HTTP 500''),
      w\<lparr>fetches := fetches w + 3,
        effects := effects w @
          [ToPopup (PROGRESS_UPDATE 1 2),
           Fetch ''https://cdn.example/p1'', Delay (Num 1000),
           Fetch ''https://cdn.example/p1'', Delay (Num 2000),
           Fetch ''https://cdn.example/p1'']\<rparr>)"
  by (simp add: fetchImagesFromUrls_def failing_host_one emit_def sendProgressUpdate_def)

lemma failing_host_replies:
  "title_reply failing_host = Inr ''Quarterly Review''"
  "urls_reply failing_host = Inr (Some [''https://cdn.example/p1'', ''https://cdn.example/p2''])"
  by (simp_all add: failing_host_def calm_def)

lemma unlisted_replies:
  "title_reply unlisted = Inr ''Quarterly Review''"
  "fst (fetchSlideUrlsViaApi unlisted 7 2 idle) = None"
  by (simp_all add: unlisted_def calm_def fetchSlideUrlsViaApi_fst)

theorem byte_fetch_failure_ends_capture_witness:
  "startCapture failing_host 7 2 idle =
     idle\<lparr>fetches := 3,
          effects :=
            [ToContent GET_DOCUMENT_TITLE, ToContent (FETCH_SLIDE_URLS 2),
             ToPopup (PROGRESS_UPDATE 1 2),
             Fetch ''https://cdn.example/p1'', Delay (Num 1000),
             Fetch ''https://cdn.example/p1'', Delay (Num 2000),
             Fetch ''https://cdn.example/p1'',
             ToPopup (CAPTURE_ERROR ''HTTP 500'')]\<rparr>
   \<and> screenshots (startCapture failing_host 7 2 idle) = 0
   \<and> navigations (startCapture failing_host 7 2 idle) = 0
   \<and> screenshots (startCapture failing_host 7 2 busy) = 0
   \<and> ToContent (GO_TO_SLIDE 1) \<in> set (effects (startCapture unlisted 7 2 idle))"
proof -
  have a: "activeCapture idle = None" by (simp add: idle_def)
  have l: "length [''https://cdn.example/p1'', ''https://cdn.example/p2''] = 2" by simp
  have f: "fst (fetchImagesFromUrls failing_host [''https://cdn.example/p1'', ''https://cdn.example/p2'']
           (emit (ToContent (FETCH_SLIDE_URLS 2))
             (emit (ToContent GET_DOCUMENT_TITLE)
               (idle\<lparr>activeCapture := Some \<lparr>tabId = 7, totalSlides = 2\<rparr>\<rparr>)))) = Inl (JsError ''Error'' ''HTTP 500'')"
    by (simp add: failing_host_fetch)
  note th = byte_fetch_failure_ends_capture [where w = idle and E = failing_host
      and title = "''Quarterly Review''"
      and urls = "[''https://cdn.example/p1'', ''https://cdn.example/p2'']" and tot = 2
      and tab = 7 and err = "JsError ''Error'' ''HTTP 500''"
      and E' = failing_host and urls' = "[''https://cdn.example/p1'', ''https://cdn.example/p2'']"
      and tot' = 2 and tab' = 7 and w' = busy
      and w'' = idle and E'' = unlisted and title'' = "''Quarterly Review''" and tab'' = 7
      and tot'' = 2]
  have h1: "activeCapture idle = None \<and> title_reply failing_host = Inr ''Quarterly Review''
      \<and> urls_reply failing_host = Inr (Some [''https://cdn.example/p1'', ''https://cdn.example/p2''])
      \<and> length [''https://cdn.example/p1'', ''https://cdn.example/p2''] = 2
      \<and> fst (fetchImagesFromUrls failing_host [''https://cdn.example/p1'', ''https://cdn.example/p2'']
           (emit (ToContent (FETCH_SLIDE_URLS 2))
             (emit (ToContent GET_DOCUMENT_TITLE)
               (idle\<lparr>activeCapture := Some \<lparr>tabId = 7, totalSlides = 2\<rparr>\<rparr>)))) = Inl (JsError ''Error'' ''HTTP 500'')"
    using a failing_host_replies l f by (intro conjI)
  have h2: "urls_reply failing_host = Inr (Some [''https://cdn.example/p1'', ''https://cdn.example/p2''])
      \<and> length [''https://cdn.example/p1'', ''https://cdn.example/p2''] = 2"
    using failing_host_replies l by (intro conjI)
  have h3: "activeCapture idle = None \<and> title_reply unlisted = Inr ''Quarterly Review''
      \<and> fst (fetchSlideUrlsViaApi unlisted 7 2 idle) = None"
    using a unlisted_replies by (intro conjI)
  note c1 = th [THEN conjunct1, THEN mp, OF h1]
  note c2 = th [THEN conjunct2, THEN conjunct1, THEN mp, OF h2]
  note p3 = th [THEN conjunct2, THEN conjunct2, THEN mp, OF h3]
  from c1 have p1: "startCapture failing_host 7 2 idle =
           (sendError (JsError ''Error'' ''HTTP 500'')
             (snd (fetchImagesFromUrls failing_host [''https://cdn.example/p1'', ''https://cdn.example/p2'']
               (emit (ToContent (FETCH_SLIDE_URLS 2))
                 (emit (ToContent GET_DOCUMENT_TITLE)
                   (idle\<lparr>activeCapture := Some \<lparr>tabId = 7, totalSlides = 2\<rparr>\<rparr>))))))
           \<lparr>activeCapture := None\<rparr>"
    by (rule conjunct1)
  from c1 have p1s: "screenshots (startCapture failing_host 7 2 idle) = screenshots idle"
    by (elim conjE)
  from c1 have p1n: "navigations (startCapture failing_host 7 2 idle) = navigations idle"
    by (elim conjE)
  from c2 have p2: "screenshots (startCapture failing_host 7 2 busy) = screenshots busy"
    by (elim conjE)
  from p1 p1s p1n p2 p3 show ?thesis
    by (simp add: failing_host_fetch sendError_def error_text_def emit_def idle_def busy_def)
qed

text \<open>
  A run against a host that answers 500 to every image request: both URLs are obtained,
  the first image fails after three attempts, and the run ends with \<open>CAPTURE_ERROR\<close>,
  without a screenshot and without completion.
\<close>

theorem byte_fetch_failure_no_fallback:
  "fst (fetchSlideUrlsViaApi failing_host 7 2 idle)
     = Some [''https://cdn.example/p1'', ''https://cdn.example/p2'']
   \<and> fst (fetchImagesFromUrls failing_host [''https://cdn.example/p1'', ''https://cdn.example/p2''] idle)
     = Inl (JsError ''Error'' ''HTTP 500'')
   \<and> CaptureVisibleTab \<notin> set (effects (startCapture failing_host 7 2 idle))
   \<and> ToPopup (CAPTURE_ERROR ''HTTP 500'') \<in> set (effects (startCapture failing_host 7 2 idle))
   \<and> ToPopup CAPTURE_COMPLETE \<notin> set (effects (startCapture failing_host 7 2 idle))"
proof -
  have "capture_run failing_host 7 2 (idle\<lparr>activeCapture := Some \<lparr>tabId = 7, totalSlides = 2\<rparr>\<rparr>) =
     (Inl (JsError ''Error'' ''HTTP 500''),
      snd (fetchImagesFromUrls failing_host [''https://cdn.example/p1'', ''https://cdn.example/p2'']
           (emit (ToContent (FETCH_SLIDE_URLS 2))
             (emit (ToContent GET_DOCUMENT_TITLE)
               (idle\<lparr>activeCapture := Some \<lparr>tabId = 7, totalSlides = 2\<rparr>\<rparr>)))))"
    by (rule capture_run_direct_failure [OF failing_host_replies]) (simp_all add: failing_host_fetch)
  then have "effects (startCapture failing_host 7 2 idle) =
            [ToContent GET_DOCUMENT_TITLE, ToContent (FETCH_SLIDE_URLS 2),
             ToPopup (PROGRESS_UPDATE 1 2),
             Fetch ''https://cdn.example/p1'', Delay (Num 1000),
             Fetch ''https://cdn.example/p1'', Delay (Num 2000),
             Fetch ''https://cdn.example/p1'',
             ToPopup (CAPTURE_ERROR ''HTTP 500'')]"
    by (simp add: startCapture_def failing_host_fetch sendError_def error_text_def emit_def idle_def)
  then show ?thesis
    by (simp add: fetchSlideUrlsViaApi_def failing_host_replies failing_host_fetch)
qed


section \<open>Properties of generatePdf\<close>

lemma has_png_signature_take:
  "has_png_signature b \<longleftrightarrow> take 4 b = [0x89, 0x50, 0x4E, 0x47]"
proof (cases b)
  case Nil
  then show ?thesis by (simp add: has_png_signature_def byte_at_def)
next
  case b0: (Cons x0 t0)
  show ?thesis
  proof (cases t0)
    case Nil
    with b0 show ?thesis by (simp add: has_png_signature_def byte_at_def)
  next
    case b1: (Cons x1 t1)
    show ?thesis
    proof (cases t1)
      case Nil
      with b0 b1 show ?thesis by (simp add: has_png_signature_def byte_at_def)
    next
      case b2: (Cons x2 t2)
      show ?thesis
      proof (cases t2)
        case Nil
        with b0 b1 b2 show ?thesis by (simp add: has_png_signature_def byte_at_def)
      next
        case (Cons x3 t3)
        with b0 b1 b2 show ?thesis
          by (simp add: has_png_signature_def byte_at_def eval_nat_numeral)
      qed
    qed
  qed
qed

lemma add_pages_Inr:
  "add_pages L xs pdfDoc = Inr pages \<longleftrightarrow>
     (\<exists>ims. list_all2 (\<lambda>x im. embed L x = Inr im) xs ims \<and> pages = pdfDoc @ map page_for ims)"
proof (induction xs arbitrary: pdfDoc)
  case Nil
  show ?case by auto
next
  case (Cons x xs)
  show ?case
  proof (cases "embed L x")
    case (Inl e)
    then show ?thesis by (simp add: list_all2_Cons1)
  next
    case (Inr im)
    then show ?thesis
      by (auto simp: Cons.IH list_all2_Cons1)
  qed
qed

text \<open>
  C7. A buffer is embedded as PNG exactly when its first four bytes are
  \<open>89 50 4E 47\<close>, the start of the PNG signature, and as JPEG otherwise. When the library
  embeds every buffer, the document that is serialised has one page per buffer, in order,
  each page with the width and the height of its image and the image drawn at (0, 0) in
  that size; and every document \<open>generatePdf\<close> returns is of this kind. The two-page
  example of the specification follows the theorem.
\<close>

theorem generatePdf_pages:
  "(has_png_signature b \<longleftrightarrow> take 4 b = [0x89, 0x50, 0x4E, 0x47])
   \<and> (list_all2
         (\<lambda>imageData im.
            (if take 4 (Uint8Array imageData) = [0x89, 0x50, 0x4E, 0x47]
             then embedPng L imageData else embedJpg L imageData) = Inr im)
         imageDataArray ims \<longrightarrow>
       generatePdf L imageDataArray =
         save L (map (\<lambda>im. \<lparr>page_width = img_width im, page_height = img_height im,
                            content = [\<lparr>drawn = im, at_x = 0, at_y = 0,
                                        draw_width = img_width im, draw_height = img_height im\<rparr>]\<rparr>) ims))
   \<and> (generatePdf L imageDataArray = Inr out \<longrightarrow>
       (\<exists>ims. list_all2
                (\<lambda>imageData im.
                   (if take 4 (Uint8Array imageData) = [0x89, 0x50, 0x4E, 0x47]
                    then embedPng L imageData else embedJpg L imageData) = Inr im)
                imageDataArray ims
              \<and> save L (map (\<lambda>im. \<lparr>page_width = img_width im, page_height = img_height im,
                                   content = [\<lparr>drawn = im, at_x = 0, at_y = 0,
                                               draw_width = img_width im, draw_height = img_height im\<rparr>]\<rparr>) ims)
                  = Inr out))"
proof -
  have e: "(if take 4 (Uint8Array x) = [0x89, 0x50, 0x4E, 0x47] then embedPng L x else embedJpg L x)
           = embed L x" for x
    by (simp add: embed_def has_png_signature_take)
  have p: "(\<lambda>im. \<lparr>page_width = img_width im, page_height = img_height im,
                  content = [\<lparr>drawn = im, at_x = 0, at_y = 0,
                              draw_width = img_width im, draw_height = img_height im\<rparr>]\<rparr>) = page_for"
    by (simp add: page_for_def fun_eq_iff)
  show ?thesis
    unfolding e p
  proof (intro conjI impI)
    show "has_png_signature b \<longleftrightarrow> take 4 b = [0x89, 0x50, 0x4E, 0x47]"
      by (rule has_png_signature_take)
  next
    assume "list_all2 (\<lambda>imageData im. embed L imageData = Inr im) imageDataArray ims"
    then have "add_pages L imageDataArray [] = Inr (map page_for ims)"
      using add_pages_Inr [of L imageDataArray "[]" "map page_for ims"] by auto
    then show "generatePdf L imageDataArray = save L (map page_for ims)"
      by (simp add: generatePdf_def)
  next
    assume a: "generatePdf L imageDataArray = Inr out"
    then obtain pages where pg: "add_pages L imageDataArray [] = Inr pages" "save L pages = Inr out"
      by (auto simp: generatePdf_def split: sum.splits)
    from pg(1) obtain ims where
      "list_all2 (\<lambda>x im. embed L x = Inr im) imageDataArray ims" "pages = map page_for ims"
      using add_pages_Inr [of L imageDataArray "[]" pages] by auto
    with pg(2) show "\<exists>ims. list_all2 (\<lambda>imageData im. embed L imageData = Inr im) imageDataArray ims
              \<and> save L (map page_for ims) = Inr out"
      by auto
  qed
qed

lemma fixture_images:
  "ref_embedPng (pngBytesFor 800 600)
     = Inr \<lparr>img_width = 800, img_height = 600, img_source = pngBytesFor 800 600\<rparr>"
  "ref_embedJpg (jpegBytesFor 1024 768)
     = Inr \<lparr>img_width = 1024, img_height = 768, img_source = jpegBytesFor 1024 768\<rparr>"
  "take 4 (Uint8Array (pngBytesFor 800 600)) = [0x89, 0x50, 0x4E, 0x47]"
  "take 4 (Uint8Array (jpegBytesFor 1024 768)) \<noteq> [0x89, 0x50, 0x4E, 0x47]"
  by (simp_all add: ref_embedPng_def ref_embedJpg_def pngBytesFor_def jpegBytesFor_def Uint8Array_def
      be32_def be16_def be32_bytes_def be16_bytes_def)

theorem generatePdf_pages_witness:
  "generatePdf pdflib_ref [pngBytesFor 800 600, jpegBytesFor 1024 768] =
     ref_save
       [\<lparr>page_width = 800, page_height = 600,
         content = [\<lparr>drawn = \<lparr>img_width = 800, img_height = 600, img_source = pngBytesFor 800 600\<rparr>,
                     at_x = 0, at_y = 0, draw_width = 800, draw_height = 600\<rparr>]\<rparr>,
        \<lparr>page_width = 1024, page_height = 768,
         content = [\<lparr>drawn = \<lparr>img_width = 1024, img_height = 768, img_source = jpegBytesFor 1024 768\<rparr>,
                     at_x = 0, at_y = 0, draw_width = 1024, draw_height = 768\<rparr>]\<rparr>]"
proof -
  let ?ims = "[\<lparr>img_width = 800, img_height = 600, img_source = pngBytesFor 800 600\<rparr>,
               \<lparr>img_width = 1024, img_height = 768, img_source = jpegBytesFor 1024 768\<rparr>]"
  have h: "list_all2
         (\<lambda>imageData im.
            (if take 4 (Uint8Array imageData) = [0x89, 0x50, 0x4E, 0x47]
             then embedPng pdflib_ref imageData else embedJpg pdflib_ref imageData) = Inr im)
         [pngBytesFor 800 600, jpegBytesFor 1024 768] ?ims"
    by (simp add: fixture_images pdflib_ref_def)
  from generatePdf_pages [where L = pdflib_ref and ims = ?ims
      and imageDataArray = "[pngBytesFor 800 600, jpegBytesFor 1024 768]",
      THEN conjunct2, THEN conjunct1, THEN mp, OF h]
  show ?thesis by (simp add: pdflib_ref_def)
qed

text \<open>
  C4, as amended. For the empty sequence \<open>generatePdf\<close> embeds nothing, adds no page and
  raises no error of its own: its result is what the library's \<open>save\<close> returns for the
  document to which no page was added.
\<close>

theorem generatePdf_empty: "generatePdf L [] = save L []"
  by (simp add: generatePdf_def)

text \<open>With a library that serialises any document, the empty sequence is assembled with success.\<close>

theorem generatePdf_empty_succeeds: "generatePdf pdflib_ref [] = Inr [0]"
  by (simp add: generatePdf_def pdflib_ref_def ref_save_def)


section \<open>Properties of the file name\<close>

lemma runs_Nil_iff: "runs P s = [] \<longleftrightarrow> s = []"
  by (cases s) (auto split: list.splits)

lemma runs_Cons_hd: "runs P (c # cs) = r # rs \<Longrightarrow> r \<noteq> [] \<and> hd r = c"
  by (auto split: list.splits if_splits)

lemma collapse_space:
  "is_space c \<Longrightarrow> collapse_whitespace (c # cs) = CHR ''-'' # collapse_whitespace (dropWhile is_space cs)"
proof (induction cs arbitrary: c)
  case Nil
  then show ?case by (simp add: collapse_whitespace_def)
next
  case (Cons d ds)
  have "runs is_space (d # ds) \<noteq> []"
    by (simp only: runs_Nil_iff) simp
  then obtain r rs where r: "runs is_space (d # ds) = r # rs"
    by (cases "runs is_space (d # ds)") blast+
  then have hd: "r \<noteq> []" "hd r = d"
    using runs_Cons_hd [OF r] by simp_all
  show ?case
  proof (cases "is_space d")
    case True
    from Cons.IH [OF True, of ] r hd True
    have "CHR ''-'' # concat (map (\<lambda>r. if is_space (hd r) then ''-'' else r) rs)
          = CHR ''-'' # collapse_whitespace (dropWhile is_space ds)"
      by (simp add: collapse_whitespace_def)
    with Cons.prems True r hd show ?thesis
      by (simp add: collapse_whitespace_def del: runs.simps) (simp add: r hd)
  next
    case False
    with Cons.prems r hd show ?thesis
      by (simp add: collapse_whitespace_def)
  qed
qed

lemma collapse_other:
  "\<not> is_space c \<Longrightarrow> collapse_whitespace (c # cs) = c # collapse_whitespace cs"
proof (cases "runs is_space cs")
  case Nil
  assume "\<not> is_space c"
  with Nil show ?thesis by (simp add: collapse_whitespace_def)
next
  case (Cons r rs)
  assume c: "\<not> is_space c"
  from Cons have "cs \<noteq> []" by (auto simp: runs_Nil_iff [symmetric])
  then obtain d ds where "cs = d # ds" by (cases cs) auto
  with Cons have "r \<noteq> []" using runs_Cons_hd by blast
  with c Cons show ?thesis
    by (simp add: collapse_whitespace_def)
qed

lemma hyphenate_collapse: "hyphenate s = collapse_whitespace s"
proof (induction s rule: hyphenate.induct)
  case 1
  show ?case by (simp add: collapse_whitespace_def)
next
  case (2 c cs)
  then show ?case
    by (cases "is_space c") (simp_all add: collapse_space collapse_other)
qed

lemma hyphen_plain: "\<not> is_space CHR ''-''" "\<not> illegal_char CHR ''-''"
  by (simp_all add: is_space_def illegal_char_def)

lemma hyphenate_set: "set (hyphenate s) \<subseteq> insert CHR ''-'' {c \<in> set s. \<not> is_space c}"
proof (induction s rule: hyphenate.induct)
  case 1
  show ?case by simp
next
  case (2 c cs)
  show ?case
  proof (cases "is_space c")
    case True
    with 2 have "set (hyphenate (dropWhile is_space cs))
        \<subseteq> insert CHR ''-'' {c \<in> set (dropWhile is_space cs). \<not> is_space c}" by simp
    moreover have "set (dropWhile is_space cs) \<subseteq> set cs" by (rule set_dropWhileD [THEN subsetI])
    ultimately show ?thesis using True by auto
  next
    case False
    with 2 show ?thesis by auto
  qed
qed

lemma hyphenate_Nil_iff: "hyphenate s = [] \<longleftrightarrow> s = []"
  by (cases s) simp_all

lemma default_name_plain:
  "c \<in> set ''docsend-presentation'' \<Longrightarrow> \<not> illegal_char c \<and> \<not> is_space c"
  by (auto simp: illegal_char_def is_space_def)

text \<open>
  C9. The name under which the PDF is saved is the title with the illegal characters
  removed, every maximal run of white space turned into one hyphen, cut to at most 100
  characters, and replaced by \<open>docsend-presentation\<close> exactly when nothing is left, which
  is when every character of the title is illegal. The name is never empty, has no illegal
  character and no white space, and \<open>downloadPdf\<close> saves under that name with \<open>.pdf\<close>
  appended.
\<close>

theorem safeName_spec:
  "safeName title = spec_filename title
   \<and> length (safeName title) \<le> 100
   \<and> safeName title \<noteq> []
   \<and> (\<forall>c \<in> set (safeName title). \<not> illegal_char c \<and> \<not> is_space c)
   \<and> (safeName title =
        (if \<forall>c \<in> set title. illegal_char c then ''docsend-presentation''
         else take 100 (collapse_whitespace (filter (\<lambda>c. \<not> illegal_char c) title))))
   \<and> snd (downloadPdf E pdfBytes title w) = emit (Download (safeName title @ ''.pdf'') pdfBytes) w"
proof (intro conjI)
  let ?s = "take 100 (hyphenate (strip_illegal title))"
  show eq: "safeName title = spec_filename title"
    by (simp add: safeName_def spec_filename_def hyphenate_collapse strip_illegal_def)
  show "length (safeName title) \<le> 100"
    by (simp add: safeName_def Let_def)
  show "safeName title \<noteq> []"
    by (simp add: safeName_def Let_def)
  show "\<forall>c \<in> set (safeName title). \<not> illegal_char c \<and> \<not> is_space c"
  proof
    fix c assume c: "c \<in> set (safeName title)"
    show "\<not> illegal_char c \<and> \<not> is_space c"
    proof (cases "?s = []")
      case True
      with c have "c \<in> set ''docsend-presentation''" by (simp add: safeName_def Let_def)
      then show ?thesis by (rule default_name_plain)
    next
      case False
      with c have "c \<in> set ?s" by (simp add: safeName_def Let_def)
      then have "c \<in> set (hyphenate (strip_illegal title))" by (rule in_set_takeD)
      with hyphenate_set [of "strip_illegal title"]
      have "c = CHR ''-'' \<or> (c \<in> set (strip_illegal title) \<and> \<not> is_space c)" by auto
      then show ?thesis by (auto simp: hyphen_plain strip_illegal_def)
    qed
  qed
  have "?s = [] \<longleftrightarrow> (\<forall>c \<in> set title. illegal_char c)"
    by (simp add: hyphenate_Nil_iff strip_illegal_def filter_empty_conv)
  then show "safeName title =
        (if \<forall>c \<in> set title. illegal_char c then ''docsend-presentation''
         else take 100 (collapse_whitespace (filter (\<lambda>c. \<not> illegal_char c) title)))"
    by (simp add: safeName_def Let_def hyphenate_collapse strip_illegal_def)
  show "snd (downloadPdf E pdfBytes title w) = emit (Download (safeName title @ ''.pdf'') pdfBytes) w"
    by (simp add: downloadPdf_def)
qed

lemma safeName_example: "safeName ''Q3: board  deck?'' = ''Q3-board-deck''"
  by (simp add: safeName_def strip_illegal_def illegal_char_def is_space_def)

theorem safeName_spec_witness:
  "spec_filename ''Q3: board  deck?'' = ''Q3-board-deck''
   \<and> safeName ''Q3: board  deck?'' = ''Q3-board-deck''
   \<and> list_all (\<lambda>c. \<not> illegal_char c \<and> \<not> is_space c) (safeName ''Q3: board  deck?'')"
proof -
  note th = safeName_spec [of "''Q3: board  deck?''"]
  from th have a: "safeName ''Q3: board  deck?'' = spec_filename ''Q3: board  deck?''"
    by (rule conjunct1)
  from th have b: "\<forall>c \<in> set (safeName ''Q3: board  deck?''). \<not> illegal_char c \<and> \<not> is_space c"
    by blast
  from a [symmetric] b show ?thesis
    by (simp only: safeName_example list_all_iff)
qed

section \<open>Properties of getSlideInfo\<close>

text \<open>
  The bounds test of method 2 on the doubles decides as the same test on the integers the
  digits denote: a value of \<open>2^53\<close> or more rounds to a double of at least \<open>2^53\<close>.
\<close>

lemma jsle_to_double_small:
  "t \<le> 500 \<Longrightarrow> jsle (to_double (int c)) (Num (int t)) \<longleftrightarrow> c \<le> t"
  using to_double_nat_cases [of c] by auto

lemma jsle_to_double_500: "jsle (to_double (int t)) (Num 500) \<longleftrightarrow> t \<le> 500"
  using to_double_nat_cases [of t] by auto

lemma jsle_1_to_double: "jsle (Num 1) (to_double (int t)) \<longleftrightarrow> 1 \<le> t"
  using to_double_nat_cases [of t] by auto

lemma within_bounds:
  "jsle (Num 1) (to_double (int t)) \<and> jsle (to_double (int t)) (Num 500)
     \<and> jsle (Num 1) (to_double (int c)) \<and> jsle (to_double (int c)) (to_double (int t))
   \<longleftrightarrow> 1 \<le> c \<and> c \<le> t \<and> 1 \<le> t \<and> t \<le> 500"
proof (cases "t \<le> 500")
  case True
  then have "to_double (int t) = Num (int t)" by simp
  with True show ?thesis
    by (auto simp: jsle_to_double_small jsle_1_to_double)
next
  case False
  then show ?thesis by (simp add: jsle_to_double_500)
qed

lemma pair_here_digits:
  "pair_here s = Some (m1, m2, r) \<Longrightarrow>
     m1 \<noteq> [] \<and> m2 \<noteq> [] \<and> list_all is_digit m1 \<and> list_all is_digit m2"
  by (auto simp: pair_here_def Let_def list_all_iff split: if_splits option.splits
      dest: set_takeWhileD)

lemma body_match_digits:
  "body_match prev s = Some (m1, m2) \<Longrightarrow>
     m1 \<noteq> [] \<and> m2 \<noteq> [] \<and> list_all is_digit m1 \<and> list_all is_digit m2"
proof (induction s arbitrary: prev)
  case Nil
  then show ?case by simp
next
  case (Cons c cs)
  show ?case
  proof (cases "if not_word prev then pair_here (c # cs) else None")
    case None
    with Cons.prems have "body_match (Some c) cs = Some (m1, m2)" by simp
    then show ?thesis by (rule Cons.IH)
  next
    case (Some t)
    obtain d1 d2 r where t: "t = (d1, d2, r)" by (cases t)
    with Some have ph: "pair_here (c # cs) = Some (d1, d2, r)"
      by (simp split: if_splits)
    show ?thesis
    proof (cases "not_word (head_of r)")
      case True
      with Some t Cons.prems have "m1 = d1" "m2 = d2" by simp_all
      with pair_here_digits [OF ph] show ?thesis by simp
    next
      case False
      with Some t Cons.prems have "body_match (Some c) cs = Some (m1, m2)" by simp
      then show ?thesis by (rule Cons.IH)
    qed
  qed
qed

text \<open>
  C6. When no page label matches and the text of the body has a match of the numeric
  pattern, the pair of the match is returned if and only if \<open>1 \<le> current \<le> total\<close> and
  \<open>1 \<le> total \<le> 500\<close> (for the integers the digits denote, which within these bounds are
  the numbers returned); otherwise \<open>getSlideInfo\<close> goes on with method 3 (the thumbnails)
  and then method 4. The two groups of the match are runs of digits that are not empty.
\<close>

theorem method2_bounds:
  "method1 d = None \<Longrightarrow> body_match None (body_innerText d) = Some (m1, m2) \<Longrightarrow>
   getSlideInfo d =
     (if 1 \<le> nat_of_digits m1 \<and> nat_of_digits m1 \<le> nat_of_digits m2
         \<and> 1 \<le> nat_of_digits m2 \<and> nat_of_digits m2 \<le> 500
      then Some \<lparr>current = Num (int (nat_of_digits m1)), total_slides = Num (int (nat_of_digits m2))\<rparr>
      else (case method3 d of Some i \<Rightarrow> Some i | None \<Rightarrow> method4 d))
   \<and> m1 \<noteq> [] \<and> m2 \<noteq> [] \<and> list_all is_digit m1 \<and> list_all is_digit m2"
proof -
  assume m: "method1 d = None" and b: "body_match None (body_innerText d) = Some (m1, m2)"
  from body_match_digits [OF b]
  have dg: "m1 \<noteq> []" "m2 \<noteq> []" "list_all is_digit m1" "list_all is_digit m2"
    by simp_all
  let ?c = "nat_of_digits m1" and ?t = "nat_of_digits m2"
  have p: "parseInt m1 = to_double (int ?c)" "parseInt m2 = to_double (int ?t)"
    using dg by (simp_all add: parseInt_digits)
  have bounds: "jsle (Num 1) (to_double (int ?t)) \<and> jsle (to_double (int ?t)) (Num 500)
        \<and> jsle (Num 1) (to_double (int ?c)) \<and> jsle (to_double (int ?c)) (to_double (int ?t))
      \<longleftrightarrow> 1 \<le> ?c \<and> ?c \<le> ?t \<and> 1 \<le> ?t \<and> ?t \<le> 500"
    using within_bounds [of ?t ?c] by blast
  have exact: "to_double (int ?c) = Num (int ?c) \<and> to_double (int ?t) = Num (int ?t)"
    if "1 \<le> ?c \<and> ?c \<le> ?t \<and> 1 \<le> ?t \<and> ?t \<le> 500"
    using that by simp
  show ?thesis
    using m b dg bounds exact
    by (auto simp: getSlideInfo_def method2_def Let_def p)
qed

lemma blank_simps:
  "querySelectorAll blank = (\<lambda>selector. [])" "body_innerText blank = []" "doc_title blank = []"
  by (simp_all add: blank_def)

lemma counter_page_match: "body_match None (body_innerText counter_page) = Some (''3'', ''10'')"
  by (simp add: counter_page_def blank_def pair_here_def not_word_def head_of_def is_digit_def
      is_space_def is_word_char_def separator_def strip_prefix_def strip_prefix_ci_def ascii_upper_def)

lemma long_page_match: "body_match None (body_innerText long_page) = Some (''3'', ''900'')"
  by (simp add: long_page_def blank_def pair_here_def not_word_def head_of_def is_digit_def
      is_space_def is_word_char_def separator_def strip_prefix_def strip_prefix_ci_def ascii_upper_def)

lemma digits_values:
  "nat_of_digits ''3'' = 3" "nat_of_digits ''10'' = 10" "nat_of_digits ''900'' = 900"
  "nat_of_digits ''901'' = 901"
  by (simp_all add: nat_of_digits_def digit_val_def)

lemma counter_page_method1: "method1 counter_page = None"
  by (simp add: method1_def pageLabelSelectors_def querySelector_def counter_page_def blank_def)

lemma long_page_methods:
  "method1 long_page = None"
  "method3 long_page = Some \<lparr>current = Num 1, total_slides = Num 4\<rparr>"
  by (simp_all add: method1_def method3_def pageLabelSelectors_def thumbnailSelectors_def
      querySelector_def long_page_def blank_def)

theorem method2_bounds_witness:
  "getSlideInfo counter_page = Some \<lparr>current = Num 3, total_slides = Num 10\<rparr>
   \<and> getSlideInfo long_page = Some \<lparr>current = Num 1, total_slides = Num 4\<rparr>"
  using method2_bounds [OF counter_page_method1 counter_page_match]
    method2_bounds [OF long_page_methods(1) long_page_match]
  by (simp add: digits_values long_page_methods)


section \<open>The page label\<close>

lemma page_label_info_first:
  "(\<forall>s \<in> set before. case querySelector d s of None \<Rightarrow> True
                                          | Some e \<Rightarrow> label_match (textContent e) = None) \<Longrightarrow>
   querySelector d selector = Some el \<Longrightarrow> label_match (textContent el) = Some (m1, m2) \<Longrightarrow>
   page_label_info d (before @ selector # rest)
     = Some \<lparr>current = parseInt m1, total_slides = parseInt m2\<rparr>"
  by (induction before) (auto split: option.splits)

lemma method2_Some:
  "method2 d = Some i \<Longrightarrow>
     jsle (Num 1) (current i) \<and> jsle (current i) (total_slides i) \<and> jsle (total_slides i) (Num 500)"
  by (auto simp: method2_def Let_def split: option.splits if_splits)

lemma pair_here_parse:
  "pair_here s = Some (m1, m2, r) \<Longrightarrow>
     parseInt m1 = to_double (int (nat_of_digits m1)) \<and> parseInt m2 = to_double (int (nat_of_digits m2))"
  using pair_here_digits [of s m1 m2 r] by (simp add: parseInt_digits)

lemma label_match_parse:
  "label_match s = Some (m1, m2) \<Longrightarrow>
     parseInt m1 = to_double (int (nat_of_digits m1)) \<and> parseInt m2 = to_double (int (nat_of_digits m2))"
proof (induction s)
  case Nil
  then show ?case by simp
next
  case (Cons c cs)
  show ?case
  proof (cases "pair_here (c # cs)")
    case None
    with Cons show ?thesis by simp
  next
    case (Some t)
    obtain d1 d2 r where t: "t = (d1, d2, r)" by (cases t)
    with Some Cons.prems have "m1 = d1" "m2 = d2" by simp_all
    with Some t pair_here_parse [of "c # cs" d1 d2 r] show ?thesis by simp
  qed
qed

text \<open>
  C10. When the first page-label selector whose element has a matching text gives the
  groups \<open>m1\<close> and \<open>m2\<close>, \<open>getSlideInfo\<close> returns \<open>parseInt\<close> of each (the double nearest
  to the decimal value of the digits) as they are, whatever their values (a total above
  500, a current page above the total), and the answer to \<open>GET_SLIDE_INFO\<close> is the slide
  information: no later method and no gate check has a say. Method 2, by contrast, returns
  only pairs within the bounds.
\<close>

theorem page_label_unbounded:
  "pageLabelSelectors = before @ selector # rest \<Longrightarrow>
   (\<forall>s \<in> set before. case querySelector d s of None \<Rightarrow> True
                                          | Some e \<Rightarrow> label_match (textContent e) = None) \<Longrightarrow>
   querySelector d selector = Some el \<Longrightarrow> label_match (textContent el) = Some (m1, m2) \<Longrightarrow>
   getSlideInfo d = Some \<lparr>current = parseInt m1, total_slides = parseInt m2\<rparr>
   \<and> on_GET_SLIDE_INFO d = Slides (parseInt m1) (parseInt m2) (getDocumentTitle d)
   \<and> parseInt m1 = to_double (int (nat_of_digits m1))
   \<and> parseInt m2 = to_double (int (nat_of_digits m2))
   \<and> (method2 d = None \<or> (\<exists>i. method2 d = Some i
          \<and> jsle (Num 1) (current i) \<and> jsle (current i) (total_slides i)
          \<and> jsle (total_slides i) (Num 500)))"
proof -
  assume a: "pageLabelSelectors = before @ selector # rest"
    "\<forall>s \<in> set before. case querySelector d s of None \<Rightarrow> True
                                          | Some e \<Rightarrow> label_match (textContent e) = None"
    "querySelector d selector = Some el" "label_match (textContent el) = Some (m1, m2)"
  have "method1 d = Some \<lparr>current = parseInt m1, total_slides = parseInt m2\<rparr>"
    unfolding method1_def a(1) using a(2-4) by (rule page_label_info_first)
  then have g: "getSlideInfo d = Some \<lparr>current = parseInt m1, total_slides = parseInt m2\<rparr>"
    by (simp add: getSlideInfo_def)
  have "method2 d = None \<or> (\<exists>i. method2 d = Some i
          \<and> jsle (Num 1) (current i) \<and> jsle (current i) (total_slides i)
          \<and> jsle (total_slides i) (Num 500))"
    using method2_Some [of d] by (cases "method2 d") auto
  with g label_match_parse [OF a(4)] show ?thesis
    by (simp add: on_GET_SLIDE_INFO_def)
qed

lemma label_901: "label_match ''901 / 900'' = Some (''901'', ''900'')"
proof -
  have "pair_here ''901 / 900'' = Some (''901'', ''900'', [])"
    by (simp add: pair_here_def is_digit_def is_space_def separator_def strip_prefix_def
        strip_prefix_ci_def ascii_upper_def)
  then show ?thesis by simp
qed

lemma label_rounded: "label_match ''1 / 9007199254740993'' = Some (''1'', ''9007199254740993'')"
proof -
  have "pair_here ''1 / 9007199254740993'' = Some (''1'', ''9007199254740993'', [])"
    by (simp add: pair_here_def is_digit_def is_space_def separator_def strip_prefix_def
        strip_prefix_ci_def ascii_upper_def)
  then show ?thesis by simp
qed

lemma shown_box_text: "textContent (shown_box t wd ht) = t"
  by (simp add: shown_box_def)

lemma labelled_page_label:
  \<open>querySelector labelled_page ''.page-label'' = Some (shown_box ''901 / 900'' 60 20)\<close>
  \<open>querySelector labelled_page ''input[type="email"]'' = Some (shown_box [] 200 30)\<close>
  by (simp_all add: labelled_page_def blank_def querySelector_def)

lemma labelled_page_title: "getDocumentTitle labelled_page = ''docsend-presentation''"
  by (simp add: getDocumentTitle_def labelled_page_def blank_def querySelector_def trim_def)

lemma labelled_page_gate: "isAuthRequired labelled_page"
  by (simp add: isAuthRequired_def email_input_visible_def labelled_page_label shown_box_def)

lemma rounded_page_label:
  "querySelector rounded_page ''.page-label'' = Some (shown_box ''1 / 9007199254740993'' 60 20)"
  by (simp add: rounded_page_def blank_def querySelector_def)

lemma parse_values:
  "parseInt ''901'' = Num 901" "parseInt ''900'' = Num 900" "parseInt ''1'' = Num 1"
  "parseInt ''9007199254740993'' = Num 9007199254740992"
  by (simp_all add: parseInt_def parseInt_unsigned_def is_space_def is_digit_def nat_of_digits_def
      digit_val_def to_double_examples)

theorem page_label_unbounded_witness:
  "on_GET_SLIDE_INFO labelled_page = Slides (Num 901) (Num 900) ''docsend-presentation''
   \<and> getSlideInfo labelled_page = Some \<lparr>current = Num 901, total_slides = Num 900\<rparr>
   \<and> isAuthRequired labelled_page
   \<and> getSlideInfo rounded_page = Some \<lparr>current = Num 1, total_slides = Num 9007199254740992\<rparr>"
proof -
  have s: "pageLabelSelectors = [] @ ''.page-label'' # tl pageLabelSelectors"
    by (simp add: pageLabelSelectors_def)
  have b: "\<forall>s \<in> set []. case querySelector d s of None \<Rightarrow> True
                              | Some e \<Rightarrow> label_match (textContent e) = None" for d
    by simp
  have l: "label_match (textContent (shown_box ''901 / 900'' 60 20)) = Some (''901'', ''900'')"
    by (simp only: shown_box_text label_901)
  have r: "label_match (textContent (shown_box ''1 / 9007199254740993'' 60 20))
      = Some (''1'', ''9007199254740993'')"
    by (simp only: shown_box_text label_rounded)
  from page_label_unbounded [OF s b labelled_page_label(1) l]
    page_label_unbounded [OF s b rounded_page_label r] labelled_page_gate
  show ?thesis
    by (simp add: parse_values labelled_page_title)
qed

section \<open>The gate check\<close>

lemma list_ex_gate:
  "list_ex (gate_container_visible d) gateSelectors \<longleftrightarrow>
     (\<exists>selector \<in> set gateSelectors. \<exists>el. querySelector d selector = Some el
         \<and> display el \<noteq> ''none'' \<and> visibility el \<noteq> ''hidden'')"
  by (auto simp: list_ex_iff gate_container_visible_def split: option.splits)

lemma getSlideInfo_None:
  "getSlideInfo d = None \<longleftrightarrow> method1 d = None \<and> method2 d = None \<and> method3 d = None \<and> method4 d = None"
  by (auto simp: getSlideInfo_def split: option.splits)

text \<open>
  What the handler answers, for every page. The answer is \<open>authRequired\<close> exactly when
  all four methods have failed and either the first email input is displayed, not hidden
  and has a bounding box of positive height, or the first element of one of the gate
  selectors is displayed and not hidden. The answer is the detection error exactly when all
  four methods have failed and neither is the case. When a method succeeds the answer is
  the slide information, whatever the gate controls are.
\<close>

lemma gate_check:
  \<open>(on_GET_SLIDE_INFO d = AuthRequired \<longleftrightarrow>
      method1 d = None \<and> method2 d = None \<and> method3 d = None \<and> method4 d = None
      \<and> ((\<exists>el. querySelector d ''input[type="email"]'' = Some el
               \<and> display el \<noteq> ''none'' \<and> visibility el \<noteq> ''hidden'' \<and> 0 < rect_height el)
         \<or> (\<exists>selector \<in> set gateSelectors. \<exists>el. querySelector d selector = Some el
               \<and> display el \<noteq> ''none'' \<and> visibility el \<noteq> ''hidden'')))
   \<and> (on_GET_SLIDE_INFO d = DetectError ''Could not detect slides on this page. Try refreshing.'' \<longleftrightarrow>
      method1 d = None \<and> method2 d = None \<and> method3 d = None \<and> method4 d = None
      \<and> \<not> ((\<exists>el. querySelector d ''input[type="email"]'' = Some el
               \<and> display el \<noteq> ''none'' \<and> visibility el \<noteq> ''hidden'' \<and> 0 < rect_height el)
         \<or> (\<exists>selector \<in> set gateSelectors. \<exists>el. querySelector d selector = Some el
               \<and> display el \<noteq> ''none'' \<and> visibility el \<noteq> ''hidden'')))
   \<and> (getSlideInfo d = Some i \<longrightarrow>
        on_GET_SLIDE_INFO d = Slides (current i) (total_slides i) (getDocumentTitle d))\<close>
proof -
  have e: \<open>email_input_visible d \<longleftrightarrow>
      (\<exists>el. querySelector d ''input[type="email"]'' = Some el
               \<and> display el \<noteq> ''none'' \<and> visibility el \<noteq> ''hidden'' \<and> 0 < rect_height el)\<close>
    by (auto simp: email_input_visible_def split: option.splits)
  have auth: \<open>isAuthRequired d \<longleftrightarrow>
      ((\<exists>el. querySelector d ''input[type="email"]'' = Some el
               \<and> display el \<noteq> ''none'' \<and> visibility el \<noteq> ''hidden'' \<and> 0 < rect_height el)
         \<or> (\<exists>selector \<in> set gateSelectors. \<exists>el. querySelector d selector = Some el
               \<and> display el \<noteq> ''none'' \<and> visibility el \<noteq> ''hidden''))\<close>
    unfolding isAuthRequired_def e list_ex_gate ..
  show ?thesis
    unfolding auth [symmetric]
  proof (cases "getSlideInfo d")
    case None
    then have "method1 d = None \<and> method2 d = None \<and> method3 d = None \<and> method4 d = None"
      by (simp add: getSlideInfo_None)
    with None show \<open>(on_GET_SLIDE_INFO d = AuthRequired \<longleftrightarrow>
      method1 d = None \<and> method2 d = None \<and> method3 d = None \<and> method4 d = None
      \<and> isAuthRequired d)
   \<and> (on_GET_SLIDE_INFO d = DetectError ''Could not detect slides on this page. Try refreshing.'' \<longleftrightarrow>
      method1 d = None \<and> method2 d = None \<and> method3 d = None \<and> method4 d = None
      \<and> \<not> isAuthRequired d)
   \<and> (getSlideInfo d = Some i \<longrightarrow>
        on_GET_SLIDE_INFO d = Slides (current i) (total_slides i) (getDocumentTitle d))\<close>
      by (simp add: on_GET_SLIDE_INFO_def)
  next
    case (Some j)
    then have "\<not> (method1 d = None \<and> method2 d = None \<and> method3 d = None \<and> method4 d = None)"
      by (simp add: getSlideInfo_None [symmetric])
    with Some show \<open>(on_GET_SLIDE_INFO d = AuthRequired \<longleftrightarrow>
      method1 d = None \<and> method2 d = None \<and> method3 d = None \<and> method4 d = None
      \<and> isAuthRequired d)
   \<and> (on_GET_SLIDE_INFO d = DetectError ''Could not detect slides on this page. Try refreshing.'' \<longleftrightarrow>
      method1 d = None \<and> method2 d = None \<and> method3 d = None \<and> method4 d = None
      \<and> \<not> isAuthRequired d)
   \<and> (getSlideInfo d = Some i \<longrightarrow>
        on_GET_SLIDE_INFO d = Slides (current i) (total_slides i) (getDocumentTitle d))\<close>
      by (auto simp: on_GET_SLIDE_INFO_def)
  qed
qed

lemma gated_page_methods:
  "method1 gated_page = None" "method2 gated_page = None" "method3 gated_page = None"
  "method4 gated_page = None"
  by (simp_all add: method1_def method2_def method3_def method4_def pageLabelSelectors_def
      thumbnailSelectors_def querySelector_def gated_page_def blank_def)

lemma gated_page_email:
  \<open>querySelector gated_page ''input[type="email"]'' = Some (shown_box [] 200 30)\<close>
  by (simp add: gated_page_def blank_def querySelector_def)

lemma gated_page_answer:
  "on_GET_SLIDE_INFO gated_page = AuthRequired"
proof -
  have r: \<open>method1 gated_page = None \<and> method2 gated_page = None \<and> method3 gated_page = None
      \<and> method4 gated_page = None
      \<and> ((\<exists>el. querySelector gated_page ''input[type="email"]'' = Some el
               \<and> display el \<noteq> ''none'' \<and> visibility el \<noteq> ''hidden'' \<and> 0 < rect_height el)
         \<or> (\<exists>selector \<in> set gateSelectors. \<exists>el. querySelector gated_page selector = Some el
               \<and> display el \<noteq> ''none'' \<and> visibility el \<noteq> ''hidden''))\<close>
    by (simp add: gated_page_methods gated_page_email shown_box_def)
  from gate_check [of gated_page, THEN conjunct1, THEN iffD2, OF r] show ?thesis .
qed

lemma empty_gate_page_methods:
  "method1 empty_gate_page = None" "method2 empty_gate_page = None" "method3 empty_gate_page = None"
  "method4 empty_gate_page = None"
  by (simp_all add: method1_def method2_def method3_def method4_def pageLabelSelectors_def
      thumbnailSelectors_def querySelector_def empty_gate_page_def blank_def)

lemma empty_email_page_methods:
  "method1 empty_email_page = None" "method2 empty_email_page = None"
  "method3 empty_email_page = None" "method4 empty_email_page = None"
  by (simp_all add: method1_def method2_def method3_def method4_def pageLabelSelectors_def
      thumbnailSelectors_def querySelector_def empty_email_page_def blank_def)

text \<open>
  C8. The claim: \<open>GatedAccess\<close> is reported only when all heuristics have failed and a
  gating control is visibly rendered, judged by computed display, computed visibility and
  a bounding box that is not empty; when all fail and no such control is visible,
  \<open>Undetectable\<close> is reported. The code, on a page on which every method fails and whose
  only gate control is an empty container (displayed, not hidden, bounding box of width 0
  and height 0): no gating control is visibly rendered, and the answer is
  \<open>authRequired\<close>. The email input in the same condition is not taken for a gate: there
  the code tests the height of the bounding box, and the answer is the detection error.
\<close>

theorem empty_gate_reported_as_gated:
  "getSlideInfo empty_gate_page = None
   \<and> \<not> gating_control_rendered empty_gate_page
   \<and> on_GET_SLIDE_INFO empty_gate_page = AuthRequired
   \<and> getSlideInfo empty_email_page = None
   \<and> \<not> gating_control_rendered empty_email_page
   \<and> on_GET_SLIDE_INFO empty_email_page
       = DetectError ''Could not detect slides on this page. Try refreshing.''"
proof -
  have g: "getSlideInfo empty_gate_page = None"
    by (simp add: getSlideInfo_def empty_gate_page_methods)
  have n: "\<not> gating_control_rendered empty_gate_page"
    by (simp add: gating_control_rendered_def gateSelectors_def empty_gate_page_def blank_def
        visibly_rendered_def shown_box_def)
  have a: "isAuthRequired empty_gate_page"
    by (simp add: isAuthRequired_def gateSelectors_def gate_container_visible_def querySelector_def
        empty_gate_page_def blank_def shown_box_def)
  have g': "getSlideInfo empty_email_page = None"
    by (simp add: getSlideInfo_def empty_email_page_methods)
  have n': "\<not> gating_control_rendered empty_email_page"
    by (simp add: gating_control_rendered_def gateSelectors_def empty_email_page_def blank_def
        visibly_rendered_def shown_box_def)
  have a': "\<not> isAuthRequired empty_email_page"
    by (simp add: isAuthRequired_def email_input_visible_def gateSelectors_def
        gate_container_visible_def querySelector_def empty_email_page_def blank_def shown_box_def)
  from g n a g' n' a' show ?thesis
    by (simp add: on_GET_SLIDE_INFO_def)
qed

end
